theory Spec2Isabelle
  imports Main "HOL-Library.AList"
begin

section \<open>The module loader of the bundler (src/ModuleLoader.ts)\<close>

text \<open>
  The loader is a class whose methods are asynchronous. JavaScript runs them on one
  thread: a method runs without interruption up to its next \<^verbatim>\<open>await\<close>, where other
  methods may run. Each stretch of code between two suspension points is translated into
  one function on the loader's state; the value an \<^verbatim>\<open>await\<close> yields (a plugin hook's
  answer, a file's text, the transformer's result) is an argument of the function that
  models the code after it. Objects live in a store, addressed by references, because
  the registry, the entry list and the manual chunks share the same module objects.
\<close>

subsection \<open>Values\<close>

text \<open>What a user-supplied predicate may return: \<^verbatim>\<open>boolean | null | undefined\<close>.\<close>

datatype js_ret = JTrue | JFalse | JNull | JUndefined

text \<open>\<^verbatim>\<open>s.startsWith(p)\<close>.\<close>

definition startsWith :: "string \<Rightarrow> string \<Rightarrow> bool" where
  "startsWith s p = (take (length p) s = p)"

text \<open>The string \<^verbatim>\<open>'\0'\<close>: the single character NUL.\<close>

definition NUL :: string where
  "NUL = [CHR 0x00]"

text \<open>A string or \<^verbatim>\<open>undefined\<close> used as a condition: the empty string is falsy.\<close>

fun truthy :: "string option \<Rightarrow> bool" where
  "truthy None = False"
| "truthy (Some s) = (s \<noteq> [])"

subsection \<open>getIdMatcher\<close>

text \<open>
  The option is \<^verbatim>\<open>boolean | (string | RegExp)[] | function\<close>. A regular expression is
  represented by its \<^verbatim>\<open>test\<close> method. \<^verbatim>\<open>undefined\<close> behaves as \<^verbatim>\<open>false\<close>.
\<close>

datatype pattern = Literal string | RegExp "string \<Rightarrow> bool"

datatype 'a matcher_option =
    OptBool bool
  | OptFun "string \<Rightarrow> 'a \<Rightarrow> js_ret"
  | OptList "pattern list"

fun ids_of :: "pattern list \<Rightarrow> string list" where
  "ids_of [] = []"
| "ids_of (Literal s # vs) = s # ids_of vs"
| "ids_of (RegExp t # vs) = ids_of vs"

fun matchers_of :: "pattern list \<Rightarrow> (string \<Rightarrow> bool) list" where
  "matchers_of [] = []"
| "matchers_of (Literal s # vs) = matchers_of vs"
| "matchers_of (RegExp t # vs) = t # matchers_of vs"

text \<open>
  The compiled predicate applied to an id and the remaining arguments. It returns the
  verdict together with the calls it made to the user's function (the arguments of each
  call, in order), so that "the function was not invoked" can be stated.
\<close>

fun getIdMatcher :: "'a matcher_option \<Rightarrow> string \<Rightarrow> 'a \<Rightarrow> bool \<times> (string \<times> 'a) list" where
  "getIdMatcher (OptBool True) i args = (True, [])"
| "getIdMatcher (OptFun option) i args =
     (if startsWith i NUL then (False, [])
      else (option i args = JTrue, [(i, args)]))"
| "getIdMatcher (OptList option) i args =
     (i \<in> set (ids_of option) \<or> list_ex (\<lambda>matcher. matcher i) (matchers_of option), [])"
| "getIdMatcher (OptBool False) i args = (False, [])"

subsection \<open>Errors and warnings\<close>

type_synonym ref = nat

text \<open>
  The values built by the functions of \<^verbatim>\<open>utils/error\<close>, one constructor per function,
  with the function's arguments. \<^verbatim>\<open>error(e)\<close> throws \<open>e\<close>; \<^verbatim>\<open>graph.warn(e)\<close> records it.
  \<open>CouldNotLoad\<close> is the error of a failed load, rethrown with its new message, and
  \<open>TypeError\<close> is what JavaScript throws on reading a property of \<^verbatim>\<open>undefined\<close> and on
  calling what is not a function.
\<close>

datatype rollup_error =
    errBadLoader string
  | errCannotAssignModuleToChunk string string string
  | errEntryCannotBeExternal string
  | errExternalSyntheticExports string string
  | errInternalIdCannotBeExternal string string
  | errInvalidOption string string
  | errNamespaceConflict string ref ref
  | errUnresolvedEntry string
  | errUnresolvedImport string string
  | errUnresolvedImportTreatedAsExternal string string
  | CouldNotLoad string
  | TransformFailed string
  | TypeError

text \<open>
  Modelled from the spec: the \<^verbatim>\<open>code\<close> field of the values above (\<^verbatim>\<open>utils/error\<close> is
  not among the sources); the spec lists the codes as stable strings.
\<close>

fun code :: "rollup_error \<Rightarrow> string" where
  "code (errBadLoader _) = ''BAD_LOADER''"
| "code (errCannotAssignModuleToChunk _ _ _) = ''CANNOT_ASSIGN_MODULE_TO_CHUNK''"
| "code (errEntryCannotBeExternal _) = ''ENTRY_CANNOT_BE_EXTERNAL''"
| "code (errExternalSyntheticExports _ _) = ''EXTERNAL_SYNTHETIC_EXPORTS''"
| "code (errInternalIdCannotBeExternal _ _) = ''INTERNAL_ID_CANNOT_BE_EXTERNAL''"
| "code (errInvalidOption _ _) = ''INVALID_OPTION''"
| "code (errNamespaceConflict _ _ _) = ''NAMESPACE_CONFLICT''"
| "code (errUnresolvedEntry _) = ''UNRESOLVED_ENTRY''"
| "code (errUnresolvedImport _ _) = ''UNRESOLVED_IMPORT''"
| "code (errUnresolvedImportTreatedAsExternal _ _) = ''UNRESOLVED_IMPORT_TREATED_AS_EXTERNAL''"
| "code (CouldNotLoad _) = []"
| "code (TransformFailed _) = []"
| "code TypeError = []"

subsection \<open>getHasModuleSideEffects\<close>

text \<open>
  \<^verbatim>\<open>ModuleSideEffectsOption\<close>: a boolean, the string \<^verbatim>\<open>'no-external'\<close>, a function, an
  array of ids, or any other value (\<open>MseOther\<close>, with its truthiness).
\<close>

datatype mse_option =
    MseBool bool
  | MseNoExternal
  | MseFun "string \<Rightarrow> bool \<Rightarrow> js_ret"
  | MseList "string list"
  | MseOther bool

text \<open>The calls a side-effect policy makes to user functions.\<close>

datatype user_call = CallModuleSideEffects string bool | CallPureExternal string

text \<open>The warnings \<^verbatim>\<open>getHasModuleSideEffects\<close> emits when it builds the policy.\<close>

fun getHasModuleSideEffects_warnings :: "mse_option \<Rightarrow> rollup_error list" where
  "getHasModuleSideEffects_warnings (MseOther True) =
     [errInvalidOption ''treeshake.moduleSideEffects''
        ''please use one of false, \"no-external\", a function or an array'']"
| "getHasModuleSideEffects_warnings _ = []"

text \<open>The policy it returns, applied to an id and the external flag.\<close>

fun getHasModuleSideEffects ::
  "mse_option \<Rightarrow> unit matcher_option \<Rightarrow> string \<Rightarrow> bool \<Rightarrow> bool \<times> user_call list" where
  "getHasModuleSideEffects (MseBool moduleSideEffectsOption) pureExternalModules i external =
     (moduleSideEffectsOption, [])"
| "getHasModuleSideEffects MseNoExternal pureExternalModules i external = (\<not> external, [])"
| "getHasModuleSideEffects (MseFun moduleSideEffectsOption) pureExternalModules i external =
     (if \<not> startsWith i NUL
      then (moduleSideEffectsOption i external \<noteq> JFalse, [CallModuleSideEffects i external])
      else (True, []))"
| "getHasModuleSideEffects (MseList moduleSideEffectsOption) pureExternalModules i external =
     (i \<in> set moduleSideEffectsOption, [])"
| "getHasModuleSideEffects (MseOther t) pureExternalModules i external =
     (if external
      then (case getIdMatcher pureExternalModules i () of
              (isPure, calls) \<Rightarrow> (\<not> isPure, map (\<lambda>c. CallPureExternal (fst c)) calls))
      else (True, []))"

subsection \<open>Resolved ids\<close>

record ResolvedId =
  r_external :: bool
  r_id :: string
  r_moduleSideEffects :: bool
  r_syntheticNamedExports :: bool

text \<open>
  The object form of a \<^verbatim>\<open>resolveId\<close> hook's answer: \<^verbatim>\<open>id\<close> with optional \<^verbatim>\<open>external\<close>,
  \<^verbatim>\<open>moduleSideEffects\<close> and \<^verbatim>\<open>syntheticNamedExports\<close> (\<open>None\<close>: not a boolean).
\<close>

record PartialResolvedId =
  p_id :: string
  p_external :: "bool option"
  p_moduleSideEffects :: "bool option"
  p_syntheticNamedExports :: "bool option"

text \<open>\<^verbatim>\<open>ResolveIdResult\<close>: a string, \<^verbatim>\<open>false\<close>, \<^verbatim>\<open>null\<close> or \<^verbatim>\<open>undefined\<close>, or an object.\<close>

datatype ResolveIdResult = RString string | RFalse | RNull | RObject PartialResolvedId

text \<open>The path helpers of \<^verbatim>\<open>utils/path\<close> and \<^verbatim>\<open>utils/relativeId\<close>, taken as parameters.\<close>

record PathUtils =
  isRelative :: "string \<Rightarrow> bool"
  resolve :: "string list \<Rightarrow> string"
  relativeId :: "string \<Rightarrow> string"

definition normalizeRelativeExternalId :: "PathUtils \<Rightarrow> string \<Rightarrow> string option \<Rightarrow> string" where
  "normalizeRelativeExternalId U source importer =
     (if isRelative U source
      then (case importer of
              Some i \<Rightarrow> if i \<noteq> [] then resolve U [i, ''..'', source] else resolve U [source]
            | None \<Rightarrow> resolve U [source])
      else source)"

subsection \<open>Modules and the loader's state\<close>

text \<open>The argument of a dynamic import: a string or a syntax node (opaque here).\<close>

datatype specifier = SpecString string | SpecNode nat

text \<open>
  The fields of \<^verbatim>\<open>Module\<close> and \<^verbatim>\<open>ExternalModule\<close> the loader reads and writes (their
  classes are not among the sources). Sets and objects are lists in insertion order, as
  JavaScript iterates them; \<^verbatim>\<open>null\<close> is \<open>None\<close>. \<open>dynamicImports\<close> holds the argument of
  each dynamic import. The lists of importers and the \<^verbatim>\<open>resolution\<close> slot of a dynamic
  import are left out: the loader only appends to them, and nothing below reads them.
\<close>

record Module =
  m_id :: string
  m_moduleSideEffects :: bool
  m_syntheticNamedExports :: bool
  isEntryPoint :: bool
  isUserDefinedEntryPoint :: bool
  manualChunkAlias :: "string option"
  chunkName :: "string option"
  chunkFileNames :: "string list"
  userChunkNames :: "string list"
  sources :: "string list"
  dynamicImports :: "specifier list"
  exportAllSources :: "string list"
  exports :: "string list"
  exportsAll :: "(string \<times> string) list"
  resolvedIds :: "string \<Rightarrow> ResolvedId option"

record ExternalModule =
  x_id :: string
  x_moduleSideEffects :: bool

datatype obj = Internal Module | External ExternalModule

text \<open>
  Modelled from the spec: the constructors \<^verbatim>\<open>new Module(graph, id, moduleSideEffects,
  syntheticNamedExports, isEntry)\<close> and \<^verbatim>\<open>new ExternalModule(graph, id, moduleSideEffects)\<close>
  (Module.ts and ExternalModule.ts are not among the sources): the arguments are stored,
  every other field starts empty. The objects \<^verbatim>\<open>exports\<close>, \<^verbatim>\<open>exportsAll\<close> and \<^verbatim>\<open>resolvedIds\<close> of a
  module are taken to have no inherited properties, so that a lookup finds own keys only.
\<close>

definition new_Module :: "string \<Rightarrow> bool \<Rightarrow> bool \<Rightarrow> bool \<Rightarrow> Module" where
  "new_Module i moduleSideEffects syntheticNamedExports isEntry =
     \<lparr> m_id = i, m_moduleSideEffects = moduleSideEffects,
       m_syntheticNamedExports = syntheticNamedExports, isEntryPoint = isEntry,
       isUserDefinedEntryPoint = False, manualChunkAlias = None, chunkName = None,
       chunkFileNames = [], userChunkNames = [], sources = [], dynamicImports = [],
       exportAllSources = [], exports = [], exportsAll = [], resolvedIds = (\<lambda>_. None) \<rparr>"

definition new_ExternalModule :: "string \<Rightarrow> bool \<Rightarrow> ExternalModule" where
  "new_ExternalModule i moduleSideEffects =
     \<lparr> x_id = i, x_moduleSideEffects = moduleSideEffects \<rparr>"

text \<open>What parsing a module's code yields, and a module of the previous build's cache.\<close>

record ModuleBody =
  b_sources :: "string list"
  b_dynamicImports :: "specifier list"
  b_exportAllSources :: "string list"
  b_exports :: "string list"

record CachedModule =
  customTransformCache :: bool
  originalCode :: string
  transformFiles :: "string list option"
  c_body :: ModuleBody

record IndexedModule =
  i_index :: nat
  i_module :: ref

text \<open>
  The loader with the parts of the graph it writes (\<open>warnings\<close>, \<open>watchFiles\<close>,
  \<open>cachedModules\<close>), the store of module objects (\<open>heap\<close>, \<open>nextRef\<close>: the next fresh
  reference), and the calls made to the load hook, the file system, the transformer
  and \<^verbatim>\<open>emitFile\<close>, each by the id it was made for.
\<close>

record loader =
  isExternal :: "string \<Rightarrow> string option \<Rightarrow> bool \<Rightarrow> bool"
  hasModuleSideEffects :: "string \<Rightarrow> bool \<Rightarrow> bool"
  indexedEntryModules :: "IndexedModule list"
  manualChunkModules :: "(string \<times> ref list) list"
  nextEntryModuleIndex :: nat
  modulesById :: "(string \<times> ref) list"
  heap :: "ref \<Rightarrow> obj option"
  nextRef :: ref
  warnings :: "rollup_error list"
  watchFiles :: "string list"
  cachedModules :: "string \<Rightarrow> CachedModule option"
  loadCalls :: "string list"
  readFileCalls :: "string list"
  transformCalls :: "string list"
  emittedFiles :: "string list"

text \<open>
  The constructor: the two policies are compiled from the options; the registry is the
  map passed in, which the graph creates empty; the graph is given by the cache of the
  previous build; the warnings are those of \<^verbatim>\<open>getHasModuleSideEffects\<close>.
\<close>

definition new_ModuleLoader ::
  "(string \<Rightarrow> CachedModule option) \<Rightarrow> (string option \<times> bool) matcher_option \<Rightarrow> mse_option
     \<Rightarrow> unit matcher_option \<Rightarrow> loader" where
  "new_ModuleLoader graph external moduleSideEffects pureExternalModules =
     \<lparr> isExternal = (\<lambda>i importer isResolved. fst (getIdMatcher external i (importer, isResolved))),
       hasModuleSideEffects =
         (\<lambda>i ext. fst (getHasModuleSideEffects moduleSideEffects pureExternalModules i ext)),
       indexedEntryModules = [], manualChunkModules = [], nextEntryModuleIndex = 0,
       modulesById = [], heap = (\<lambda>_. None), nextRef = 0,
       warnings = getHasModuleSideEffects_warnings moduleSideEffects,
       watchFiles = [], cachedModules = graph,
       loadCalls = [], readFileCalls = [], transformCalls = [], emittedFiles = [] \<rparr>"

definition warn :: "rollup_error \<Rightarrow> loader \<Rightarrow> loader" where
  "warn e st = st\<lparr>warnings := warnings st @ [e]\<rparr>"

text \<open>\<^verbatim>\<open>modulesById.get(id)\<close> when it is an instance of \<^verbatim>\<open>Module\<close>.\<close>

definition getModule :: "loader \<Rightarrow> string \<Rightarrow> (ref \<times> Module) option" where
  "getModule st i =
     (case map_of (modulesById st) i of
        None \<Rightarrow> None
      | Some r \<Rightarrow> (case heap st r of Some (Internal m) \<Rightarrow> Some (r, m) | _ \<Rightarrow> None))"

text \<open>The module object a reference of type \<^verbatim>\<open>Module\<close> points to.\<close>

definition deref :: "loader \<Rightarrow> ref \<Rightarrow> Module option" where
  "deref st r = (case heap st r of Some (Internal m) \<Rightarrow> Some m | _ \<Rightarrow> None)"

definition store :: "ref \<Rightarrow> Module \<Rightarrow> loader \<Rightarrow> loader" where
  "store r m st = st\<lparr>heap := (heap st)(r \<mapsto> Internal m)\<rparr>"

subsection \<open>Resolution\<close>

text \<open>\<^verbatim>\<open>normalizeResolveIdResult\<close>; \<open>None\<close> is \<^verbatim>\<open>null\<close>.\<close>

definition normalizeResolveIdResult ::
  "loader \<Rightarrow> PathUtils \<Rightarrow> ResolveIdResult \<Rightarrow> string option \<Rightarrow> string \<Rightarrow> ResolvedId option" where
  "normalizeResolveIdResult st U resolveIdResult importer source =
     (case resolveIdResult of
        RObject ob \<Rightarrow>
          (let ext = (p_external ob = Some True) in
           Some \<lparr> r_external = ext, r_id = p_id ob,
                  r_moduleSideEffects =
                    (case p_moduleSideEffects ob of
                       Some b \<Rightarrow> b
                     | None \<Rightarrow> hasModuleSideEffects st (p_id ob) ext),
                  r_syntheticNamedExports =
                    (case p_syntheticNamedExports ob of Some b \<Rightarrow> b | None \<Rightarrow> False) \<rparr>)
      | _ \<Rightarrow>
          (if (case resolveIdResult of RString s \<Rightarrow> s \<noteq> [] | _ \<Rightarrow> False)
           then (case resolveIdResult of
                   RString s \<Rightarrow>
                     (let ext = isExternal st s importer True;
                          i = (if ext then normalizeRelativeExternalId U s importer else s)
                      in Some \<lparr> r_external = ext, r_id = i,
                                r_moduleSideEffects = hasModuleSideEffects st i ext,
                                r_syntheticNamedExports = False \<rparr>)
                 | _ \<Rightarrow> None)
           else (let i = normalizeRelativeExternalId U source importer in
                 if resolveIdResult \<noteq> RFalse \<and> \<not> isExternal st i importer True
                 then None
                 else Some \<lparr> r_external = True, r_id = i,
                             r_moduleSideEffects = hasModuleSideEffects st i True,
                             r_syntheticNamedExports = False \<rparr>)))"

text \<open>
  \<^verbatim>\<open>resolveId\<close> of the loader. \<open>answer\<close> is what the awaited \<^verbatim>\<open>resolveId\<close> of
  \<^verbatim>\<open>utils/resolveId\<close> (the plugins' hooks, then the built-in resolver) yields; the call
  is made only when the external predicate does not match.
\<close>

definition resolveId ::
  "loader \<Rightarrow> PathUtils \<Rightarrow> string \<Rightarrow> string option \<Rightarrow> ResolveIdResult \<Rightarrow> ResolvedId option" where
  "resolveId st U source importer answer =
     normalizeResolveIdResult st U
       (if isExternal st source importer False then RFalse else answer) importer source"

definition handleResolveId ::
  "loader \<Rightarrow> PathUtils \<Rightarrow> ResolvedId option \<Rightarrow> string \<Rightarrow> string
     \<Rightarrow> (rollup_error + ResolvedId) \<times> loader" where
  "handleResolveId st U resolvedId source importer =
     (case resolvedId of
        None \<Rightarrow>
          if isRelative U source
          then (Inl (errUnresolvedImport source importer), st)
          else (Inr \<lparr> r_external = True, r_id = source,
                      r_moduleSideEffects = hasModuleSideEffects st source True,
                      r_syntheticNamedExports = False \<rparr>,
                warn (errUnresolvedImportTreatedAsExternal source importer) st)
      | Some r \<Rightarrow>
          (Inr r,
           if r_external r \<and> r_syntheticNamedExports r
           then warn (errExternalSyntheticExports source importer) st
           else st))"

subsection \<open>Manual chunks\<close>

text \<open>
  \<^verbatim>\<open>manualChunkModules\<close> is created by \<^verbatim>\<open>{}\<close> (line 113), so reading a property of it finds,
  besides its own keys, the properties that every object inherits from
  \<^verbatim>\<open>Object.prototype\<close>: the methods below and, under \<^verbatim>\<open>__proto__\<close>, the prototype itself. All
  of them are truthy, and none has a method \<^verbatim>\<open>push\<close>.
\<close>

definition objectPrototype :: "string list" where
  "objectPrototype =
     [''constructor'', ''__defineGetter__'', ''__defineSetter__'', ''hasOwnProperty'',
      ''__lookupGetter__'', ''__lookupSetter__'', ''isPrototypeOf'', ''propertyIsEnumerable'',
      ''toString'', ''valueOf'', ''__proto__'', ''toLocaleString'']"

datatype 'a property = OwnProperty 'a | InheritedProperty | NoProperty

definition getProperty :: "(string \<times> 'a) list \<Rightarrow> string \<Rightarrow> 'a property" where
  "getProperty ob k =
     (case map_of ob k of
        Some v \<Rightarrow> OwnProperty v
      | None \<Rightarrow> if k \<in> set objectPrototype then InheritedProperty else NoProperty)"

text \<open>
  Lines 289-292: the list under the alias is created when the lookup yields nothing (a
  list and an inherited property are truthy), then \<^verbatim>\<open>push\<close> is called on what the lookup
  yields: on an inherited property that call throws a \<^verbatim>\<open>TypeError\<close>.
\<close>

definition pushManualChunk :: "string \<Rightarrow> ref \<Rightarrow> loader \<Rightarrow> (rollup_error + unit) \<times> loader" where
  "pushManualChunk alias r st =
     (let created = (if getProperty (manualChunkModules st) alias = NoProperty
                     then AList.update alias [] (manualChunkModules st)
                     else manualChunkModules st)
      in case getProperty created alias of
           OwnProperty ms \<Rightarrow>
             (Inr (), st\<lparr>manualChunkModules := AList.update alias (ms @ [r]) created\<rparr>)
         | _ \<Rightarrow> (Inl TypeError, st\<lparr>manualChunkModules := created\<rparr>))"

text \<open>
  Lines 284-293: the alias is assigned before the list is looked up, so it stays assigned
  when \<^verbatim>\<open>push\<close> throws. The reference is typed \<^verbatim>\<open>Module\<close> in the source; for a reference
  that holds no module, which the source cannot pass, the result is \<open>TypeError\<close> too.
\<close>

definition addModuleToManualChunk ::
  "loader \<Rightarrow> string \<Rightarrow> ref \<Rightarrow> (rollup_error + unit) \<times> loader" where
  "addModuleToManualChunk st alias r =
     (case deref st r of
        None \<Rightarrow> (Inl TypeError, st)
      | Some m \<Rightarrow>
          (case manualChunkAlias m of
             Some existing \<Rightarrow>
               if existing \<noteq> alias
               then (Inl (errCannotAssignModuleToChunk (m_id m) alias existing), st)
               else pushManualChunk alias r (store r (m\<lparr>manualChunkAlias := Some alias\<rparr>) st)
           | None \<Rightarrow>
               pushManualChunk alias r (store r (m\<lparr>manualChunkAlias := Some alias\<rparr>) st)))"

text \<open>
  \<^verbatim>\<open>assignManualChunks\<close>: the loop over \<^verbatim>\<open>modulesById.values()\<close>. The user's function
  receives the module's id and the ids of the registry (\<^verbatim>\<open>getModuleIds\<close>); it returns a
  string or not (\<open>None\<close>). An error leaves the loop with the changes made so far.
\<close>

fun assignManualChunks_loop ::
  "(string \<Rightarrow> string list \<Rightarrow> string option) \<Rightarrow> ref list \<Rightarrow> loader
     \<Rightarrow> (rollup_error + unit) \<times> loader" where
  "assignManualChunks_loop getManualChunk [] st = (Inr (), st)"
| "assignManualChunks_loop getManualChunk (r # rs) st =
     (case deref st r of
        None \<Rightarrow> assignManualChunks_loop getManualChunk rs st
      | Some m \<Rightarrow>
          (case getManualChunk (m_id m) (map fst (modulesById st)) of
             None \<Rightarrow> assignManualChunks_loop getManualChunk rs st
           | Some alias \<Rightarrow>
               (case addModuleToManualChunk st alias r of
                  (Inl e, st') \<Rightarrow> (Inl e, st')
                | (Inr _, st') \<Rightarrow> assignManualChunks_loop getManualChunk rs st')))"

definition assignManualChunks ::
  "loader \<Rightarrow> (string \<Rightarrow> string list \<Rightarrow> string option) \<Rightarrow> (rollup_error + unit) \<times> loader" where
  "assignManualChunks st getManualChunk =
     assignManualChunks_loop getManualChunk (map snd (modulesById st)) st"

text \<open>
  \<^verbatim>\<open>addManualChunks\<close>: the list of (id, alias) pairs it builds from its argument (an
  object, given by its keys in order with their id lists), and the code that runs once
  every id is loaded, on the loaded modules in the same order.
\<close>

definition unresolvedManualChunks :: "(string \<times> string list) list \<Rightarrow> (string \<times> string) list" where
  "unresolvedManualChunks manualChunks =
     concat (map (\<lambda>(alias, manualChunkIds). map (\<lambda>i. (i, alias)) manualChunkIds) manualChunks)"

fun addManualChunks_then ::
  "(string \<times> string) list \<Rightarrow> ref list \<Rightarrow> loader \<Rightarrow> (rollup_error + unit) \<times> loader" where
  "addManualChunks_then unresolved [] st = (Inr (), st)"
| "addManualChunks_then [] (r # rs) st = (Inl TypeError, st)"
| "addManualChunks_then ((i, alias) # unresolved) (r # rs) st =
     (case addModuleToManualChunk st alias r of
        (Inl e, st') \<Rightarrow> (Inl e, st')
      | (Inr _, st') \<Rightarrow> addManualChunks_then unresolved rs st')"

subsection \<open>fetchModule\<close>

text \<open>\<^verbatim>\<open>set.add(x)\<close> on a set kept as the list of its elements in insertion order.\<close>

definition set_add :: "'a \<Rightarrow> 'a list \<Rightarrow> 'a list" where
  "set_add x xs = (if x \<in> set xs then xs else xs @ [x])"

text \<open>
  What a call of \<^verbatim>\<open>fetchModule\<close> hands back at once: the module already registered
  (\<^verbatim>\<open>Promise.resolve(existingModule)\<close>), or the module it has just created and started to
  load, which the promise yields once it is loaded and linked.
\<close>

datatype fetched = Existing ref | Loading ref

fun fetched_ref :: "fetched \<Rightarrow> ref" where
  "fetched_ref (Existing r) = r"
| "fetched_ref (Loading r) = r"

text \<open>
  \<^verbatim>\<open>fetchModule\<close>, lines 354-369, up to its first suspension: the registry is read and
  written, and \<^verbatim>\<open>addModuleSource\<close> is entered and calls the load hook (line 246), all
  before any other code can run.
\<close>

definition fetchModule ::
  "loader \<Rightarrow> string \<Rightarrow> string option \<Rightarrow> bool \<Rightarrow> bool \<Rightarrow> bool \<Rightarrow> fetched \<times> loader" where
  "fetchModule st i importer moduleSideEffects syntheticNamedExports isEntry =
     (case getModule st i of
        Some (r, existingModule) \<Rightarrow>
          (Existing r,
           store r (existingModule\<lparr>isEntryPoint := isEntryPoint existingModule \<or> isEntry\<rparr>) st)
      | None \<Rightarrow>
          (Loading (nextRef st),
           st\<lparr>heap := (heap st)(nextRef st \<mapsto>
                   Internal (new_Module i moduleSideEffects syntheticNamedExports isEntry)),
              nextRef := Suc (nextRef st),
              modulesById := AList.update i (nextRef st) (modulesById st),
              watchFiles := set_add i (watchFiles st),
              loadCalls := loadCalls st @ [i]\<rparr>))"

text \<open>
  The rest of \<^verbatim>\<open>addModuleSource\<close> (lines 246-281), for the module \<open>r\<close> created by
  \<^verbatim>\<open>fetchModule\<close>. Its three awaited values are arguments: what the load hook yields,
  what \<^verbatim>\<open>readFile\<close> yields (read only when the hook yields null or undefined), and what
  the transformer yields (read only when the cache is not used). A value is returned or
  an error is thrown with a message.
\<close>

datatype 'a outcome = Returns 'a | Throws string

record SourceDescription =
  s_code :: string
  s_moduleSideEffects :: "bool option"
  s_syntheticNamedExports :: "bool option"

text \<open>
  What the load hook yields: a string, an object whose \<^verbatim>\<open>code\<close> is a string, any other
  value that is not null or undefined, or null or undefined.
\<close>

datatype load_result = LoadString string | LoadObject SourceDescription | LoadOther | LoadNull

definition couldNotLoad :: "PathUtils \<Rightarrow> string \<Rightarrow> string option \<Rightarrow> string \<Rightarrow> rollup_error" where
  "couldNotLoad U i importer message =
     CouldNotLoad (''Could not load '' @ i @
       (case importer of
          Some imp \<Rightarrow> if imp \<noteq> [] then '' (imported by '' @ relativeId U imp @ '')'' else []
        | None \<Rightarrow> []) @ '': '' @ message)"

text \<open>
  Modelled from the spec: \<^verbatim>\<open>module.setSource\<close> (Module.ts is not among the sources)
  copies the parsed state into the module.
\<close>

definition setSource :: "ModuleBody \<Rightarrow> Module \<Rightarrow> Module" where
  "setSource b m =
     m\<lparr>sources := b_sources b, dynamicImports := b_dynamicImports b,
       exportAllSources := b_exportAllSources b, exports := b_exports b\<rparr>"

text \<open>Lines 274-280: the flags of the source description, then the transformer.\<close>

definition transformModule ::
  "loader \<Rightarrow> string \<Rightarrow> ref \<Rightarrow> Module \<Rightarrow> SourceDescription \<Rightarrow> ModuleBody outcome
     \<Rightarrow> (rollup_error + unit) \<times> loader" where
  "transformModule st i r m sourceDescription transformed =
     (let m1 = (case s_moduleSideEffects sourceDescription of
                  Some b \<Rightarrow> m\<lparr>m_moduleSideEffects := b\<rparr>
                | None \<Rightarrow> m);
          m2 = (case s_syntheticNamedExports sourceDescription of
                  Some b \<Rightarrow> m1\<lparr>m_syntheticNamedExports := b\<rparr>
                | None \<Rightarrow> m1);
          st1 = st\<lparr>transformCalls := transformCalls st @ [i]\<rparr>
      in case transformed of
           Throws message \<Rightarrow> (Inl (TransformFailed message), store r m2 st1)
         | Returns b \<Rightarrow> (Inr (), store r (setSource b m2) st1))"

text \<open>Lines 256-281: from the source to \<^verbatim>\<open>setSource\<close>.\<close>

definition addModuleSource_loaded ::
  "loader \<Rightarrow> string \<Rightarrow> ref \<Rightarrow> load_result \<Rightarrow> ModuleBody outcome \<Rightarrow> (rollup_error + unit) \<times> loader" where
  "addModuleSource_loaded st i r source transformed =
     (case (case source of
              LoadString c \<Rightarrow>
                Some \<lparr>s_code = c, s_moduleSideEffects = None, s_syntheticNamedExports = None\<rparr>
            | LoadObject d \<Rightarrow> Some d
            | _ \<Rightarrow> None) of
        None \<Rightarrow> (Inl (errBadLoader i), st)
      | Some sourceDescription \<Rightarrow>
          (case deref st r of
             None \<Rightarrow> (Inl TypeError, st)
           | Some m \<Rightarrow>
               (case cachedModules st i of
                  Some cachedModule \<Rightarrow>
                    if \<not> customTransformCache cachedModule \<and>
                       originalCode cachedModule = s_code sourceDescription
                    then (Inr (),
                          store r (setSource (c_body cachedModule) m)
                            (st\<lparr>emittedFiles := emittedFiles st @
                                  (case transformFiles cachedModule of Some fs \<Rightarrow> fs | None \<Rightarrow> [])\<rparr>))
                    else transformModule st i r m sourceDescription transformed
                | None \<Rightarrow> transformModule st i r m sourceDescription transformed)))"

text \<open>Lines 246-255: the load hook's value, or else the file's text.\<close>

definition addModuleSource ::
  "loader \<Rightarrow> PathUtils \<Rightarrow> string \<Rightarrow> string option \<Rightarrow> ref
     \<Rightarrow> load_result outcome \<Rightarrow> string outcome \<Rightarrow> ModuleBody outcome
     \<Rightarrow> (rollup_error + unit) \<times> loader" where
  "addModuleSource st U i importer r loaded file transformed =
     (case loaded of
        Throws message \<Rightarrow> (Inl (couldNotLoad U i importer message), st)
      | Returns LoadNull \<Rightarrow>
          (case file of
             Throws message \<Rightarrow>
               (Inl (couldNotLoad U i importer message),
                st\<lparr>readFileCalls := readFileCalls st @ [i]\<rparr>)
           | Returns c \<Rightarrow>
               addModuleSource_loaded (st\<lparr>readFileCalls := readFileCalls st @ [i]\<rparr>) i r
                 (LoadString c) transformed)
      | Returns source \<Rightarrow> addModuleSource_loaded st i r source transformed)"

text \<open>\<^verbatim>\<open>fetchResolvedDependency\<close>, lines 392-419.\<close>

definition fetchResolvedDependency ::
  "loader \<Rightarrow> string \<Rightarrow> string \<Rightarrow> ResolvedId \<Rightarrow> (rollup_error + fetched) \<times> loader" where
  "fetchResolvedDependency st source importer resolvedId =
     (if r_external resolvedId
      then (let st1 =
                  (if map_of (modulesById st) (r_id resolvedId) = None
                   then st\<lparr>heap := (heap st)(nextRef st \<mapsto>
                             External (new_ExternalModule (r_id resolvedId)
                                         (r_moduleSideEffects resolvedId))),
                           nextRef := Suc (nextRef st),
                           modulesById := AList.update (r_id resolvedId) (nextRef st) (modulesById st)\<rparr>
                   else st)
            in case map_of (modulesById st1) (r_id resolvedId) of
                 None \<Rightarrow> (Inl (errInternalIdCannotBeExternal source importer), st1)
               | Some r \<Rightarrow>
                   (case heap st1 r of
                      Some (External externalModule) \<Rightarrow> (Inr (Existing r), st1)
                    | _ \<Rightarrow> (Inl (errInternalIdCannotBeExternal source importer), st1)))
      else (case fetchModule st (r_id resolvedId) (Some importer)
                   (r_moduleSideEffects resolvedId) (r_syntheticNamedExports resolvedId) False of
              (f, st') \<Rightarrow> (Inr f, st')))"

subsection \<open>Linking the exports (fetchModule, lines 372-389)\<close>

text \<open>The first loop: the module's own exports, but \<^verbatim>\<open>default\<close>.\<close>

fun linkOwnExports :: "string \<Rightarrow> string list \<Rightarrow> (string \<times> string) list \<Rightarrow> (string \<times> string) list" where
  "linkOwnExports i [] ea = ea"
| "linkOwnExports i (name # names) ea =
     linkOwnExports i names (if name \<noteq> ''default'' then AList.update name i ea else ea)"

text \<open>
  The inner loop over the names of \<^verbatim>\<open>exportAllModule.exportsAll\<close> (\<open>d\<close>, with its
  entries), for the module \<open>r\<close>.
\<close>

fun copyExportsAll :: "ref \<Rightarrow> ref \<Rightarrow> (string \<times> string) list \<Rightarrow> loader \<Rightarrow> loader" where
  "copyExportsAll r d [] st = st"
| "copyExportsAll r d ((name, definer) # rest) st =
     copyExportsAll r d rest
       (case deref st r of
          None \<Rightarrow> st
        | Some m \<Rightarrow>
            if name \<in> set (map fst (exportsAll m))
            then warn (errNamespaceConflict name r d) st
            else store r (m\<lparr>exportsAll := AList.update name definer (exportsAll m)\<rparr>) st)"

text \<open>The loop over \<^verbatim>\<open>module.exportAllSources\<close>.\<close>

fun linkExportAllSources :: "ref \<Rightarrow> string list \<Rightarrow> loader \<Rightarrow> (rollup_error + unit) \<times> loader" where
  "linkExportAllSources r [] st = (Inr (), st)"
| "linkExportAllSources r (source # rest) st =
     (case deref st r of
        None \<Rightarrow> (Inl TypeError, st)
      | Some m \<Rightarrow>
          (case resolvedIds m source of
             None \<Rightarrow> (Inl TypeError, st)
           | Some resolved \<Rightarrow>
               (case map_of (modulesById st) (r_id resolved) of
                  None \<Rightarrow> (Inl TypeError, st)
                | Some d \<Rightarrow>
                    (case heap st d of
                       None \<Rightarrow> (Inl TypeError, st)
                     | Some (External x) \<Rightarrow> linkExportAllSources r rest st
                     | Some (Internal exportAllModule) \<Rightarrow>
                         linkExportAllSources r rest
                           (copyExportsAll r d (exportsAll exportAllModule) st)))))"

definition fetchModule_link :: "loader \<Rightarrow> ref \<Rightarrow> (rollup_error + ref) \<times> loader" where
  "fetchModule_link st r =
     (case deref st r of
        None \<Rightarrow> (Inl TypeError, st)
      | Some m \<Rightarrow>
          (case linkExportAllSources r (exportAllSources m)
                  (store r (m\<lparr>exportsAll := linkOwnExports (m_id m) (exports m) (exportsAll m)\<rparr>) st) of
             (Inl e, st') \<Rightarrow> (Inl e, st')
           | (Inr _, st') \<Rightarrow> (Inr r, st')))"

text \<open>
  Lines 378-379: the module that an export-all source of the module resolved to, as the
  registry holds it.
\<close>

definition exportAllModuleOf :: "loader \<Rightarrow> Module \<Rightarrow> string \<Rightarrow> (ref \<times> obj) option" where
  "exportAllModuleOf st m source =
     (case resolvedIds m source of
        None \<Rightarrow> None
      | Some resolved \<Rightarrow>
          (case map_of (modulesById st) (r_id resolved) of
             None \<Rightarrow> None
           | Some d \<Rightarrow> map_option (Pair d) (heap st d)))"

subsection \<open>Entries\<close>

text \<open>
  \<^verbatim>\<open>loadEntryModule\<close>, lines 457-469, after its awaited call of \<^verbatim>\<open>resolveId\<close> of
  \<^verbatim>\<open>utils/resolveId\<close>, whose value is \<open>resolveIdResult\<close>.
\<close>

definition loadEntryModule ::
  "loader \<Rightarrow> string \<Rightarrow> bool \<Rightarrow> string option \<Rightarrow> ResolveIdResult
     \<Rightarrow> (rollup_error + fetched) \<times> loader" where
  "loadEntryModule st unresolvedId isEntry importer resolveIdResult =
     (if resolveIdResult = RFalse \<or>
         (case resolveIdResult of RObject ob \<Rightarrow> p_external ob = Some True | _ \<Rightarrow> False)
      then (Inl (errEntryCannotBeExternal unresolvedId), st)
      else (case (case resolveIdResult of
                    RObject ob \<Rightarrow> Some (p_id ob)
                  | RString s \<Rightarrow> Some s
                  | _ \<Rightarrow> None) of
              Some i \<Rightarrow>
                (case fetchModule st i None True False isEntry of (f, st') \<Rightarrow> (Inr f, st'))
            | None \<Rightarrow> (Inl (errUnresolvedEntry unresolvedId), st)))"

record UnresolvedModule =
  u_fileName :: "string option"
  u_id :: string
  u_importer :: "string option"
  u_name :: "string option"

text \<open>Lines 141-142: the indices of a batch are reserved when it is submitted.\<close>

definition addEntryModules_reserve :: "loader \<Rightarrow> UnresolvedModule list \<Rightarrow> nat \<times> loader" where
  "addEntryModules_reserve st unresolvedEntryModules =
     (nextEntryModuleIndex st,
      st\<lparr>nextEntryModuleIndex := nextEntryModuleIndex st + length unresolvedEntryModules\<rparr>)"

text \<open>Lines 152-162: the flags and names of one entry module.\<close>

definition markEntryModule :: "UnresolvedModule \<Rightarrow> bool \<Rightarrow> Module \<Rightarrow> Module" where
  "markEntryModule u isUserDefined entryModule =
     (let m1 = entryModule\<lparr>isUserDefinedEntryPoint :=
                 isUserDefinedEntryPoint entryModule \<or> isUserDefined\<rparr>
      in case u_fileName u of
           Some fileName \<Rightarrow> m1\<lparr>chunkFileNames := set_add fileName (chunkFileNames m1)\<rparr>
         | None \<Rightarrow>
             (case u_name u of
                Some name \<Rightarrow>
                  (let m2 = (if chunkName m1 = None then m1\<lparr>chunkName := Some name\<rparr> else m1)
                   in if isUserDefined
                      then m2\<lparr>userChunkNames := set_add name (userChunkNames m2)\<rparr>
                      else m2)
              | None \<Rightarrow> m1))"

text \<open>
  Lines 163-170: \<^verbatim>\<open>find\<close> takes the first record whose module has the id; it is
  updated in place, or a new record is pushed.
\<close>

fun indexEntryModule :: "loader \<Rightarrow> string \<Rightarrow> ref \<Rightarrow> nat \<Rightarrow> IndexedModule list \<Rightarrow> IndexedModule list" where
  "indexEntryModule st i r moduleIndex [] = [\<lparr>i_index = moduleIndex, i_module = r\<rparr>]"
| "indexEntryModule st i r moduleIndex (indexedModule # rest) =
     (if map_option m_id (deref st (i_module indexedModule)) = Some i
      then indexedModule\<lparr>i_index := min (i_index indexedModule) moduleIndex\<rparr> # rest
      else indexedModule # indexEntryModule st i r moduleIndex rest)"

text \<open>The loop of lines 149-172.\<close>

fun addEntryModules_loop ::
  "bool \<Rightarrow> nat \<Rightarrow> UnresolvedModule list \<Rightarrow> ref list \<Rightarrow> loader \<Rightarrow> (rollup_error + unit) \<times> loader" where
  "addEntryModules_loop isUserDefined moduleIndex us [] st = (Inr (), st)"
| "addEntryModules_loop isUserDefined moduleIndex [] (r # rs) st = (Inl TypeError, st)"
| "addEntryModules_loop isUserDefined moduleIndex (u # us) (r # rs) st =
     (case deref st r of
        None \<Rightarrow> (Inl TypeError, st)
      | Some entryModule \<Rightarrow>
          (let st1 = store r (markEntryModule u isUserDefined entryModule) st
           in addEntryModules_loop isUserDefined (Suc moduleIndex) us rs
                (st1\<lparr>indexedEntryModules :=
                       indexEntryModule st1 (m_id entryModule) r moduleIndex
                         (indexedEntryModules st1)\<rparr>)))"

text \<open>
  Lines 173-175: \<^verbatim>\<open>sort\<close> with the comparison \<^verbatim>\<open>indexA > indexB ? 1 : -1\<close>, as an
  insertion sort that moves a record behind another only when the comparison says 1.
\<close>

fun insertIndexed :: "IndexedModule \<Rightarrow> IndexedModule list \<Rightarrow> IndexedModule list" where
  "insertIndexed a [] = [a]"
| "insertIndexed a (b # bs) =
     (if i_index a > i_index b then b # insertIndexed a bs else a # b # bs)"

definition sortIndexed :: "IndexedModule list \<Rightarrow> IndexedModule list" where
  "sortIndexed xs = foldr insertIndexed xs []"

text \<open>
  Lines 148-176: the code that runs once every entry of the batch is loaded;
  \<open>entryModules\<close> are the loaded modules, in the order of the batch.
\<close>

definition addEntryModules_then ::
  "loader \<Rightarrow> nat \<Rightarrow> UnresolvedModule list \<Rightarrow> bool \<Rightarrow> ref list \<Rightarrow> (rollup_error + ref list) \<times> loader" where
  "addEntryModules_then st firstEntryModuleIndex unresolvedEntryModules isUserDefined entryModules =
     (case addEntryModules_loop isUserDefined firstEntryModuleIndex unresolvedEntryModules
             entryModules st of
        (Inl e, st') \<Rightarrow> (Inl e, st')
      | (Inr _, st') \<Rightarrow>
          (Inr entryModules, st'\<lparr>indexedEntryModules := sortIndexed (indexedEntryModules st')\<rparr>))"

text \<open>Lines 179-183: what \<^verbatim>\<open>addEntryModules\<close> returns.\<close>

definition addEntryModules_result ::
  "loader \<Rightarrow> ref list \<Rightarrow> ref list \<times> (string \<times> ref list) list \<times> ref list" where
  "addEntryModules_result st newEntryModules =
     (map i_module (indexedEntryModules st), manualChunkModules st, newEntryModules)"

subsection \<open>Resolving the dependencies of a module\<close>

text \<open>
  Lines 318-320 and 541-543 are the same expression,
  \<^verbatim>\<open>module.resolvedIds[s] = module.resolvedIds[s] || this.handleResolveId(await
  this.resolveId(s, module.id), s, module.id)\<close>. It reads the memo; when the memo holds a
  value, that value is assigned again and no call is made. Otherwise the method is
  suspended on \<^verbatim>\<open>resolveId\<close>, and \<open>memoizeResolvedId\<close> is what runs when it resumes with
  the resolver's \<open>answer\<close>.
\<close>

definition memoizeResolvedId ::
  "loader \<Rightarrow> PathUtils \<Rightarrow> ref \<Rightarrow> string \<Rightarrow> ResolveIdResult \<Rightarrow> (rollup_error + ResolvedId) \<times> loader" where
  "memoizeResolvedId st U r s answer =
     (case deref st r of
        None \<Rightarrow> (Inl TypeError, st)
      | Some m \<Rightarrow>
          (case handleResolveId st U (resolveId st U s (Some (m_id m)) answer) s (m_id m) of
             (Inl e, st1) \<Rightarrow> (Inl e, st1)
           | (Inr resolved, st1) \<Rightarrow>
               (Inr resolved, store r (m\<lparr>resolvedIds := (resolvedIds m)(s \<mapsto> resolved)\<rparr>) st1)))"

text \<open>
  The static imports of \<^verbatim>\<open>fetchAllDependencies\<close> (lines 314-321), for one source of the
  module \<open>r\<close>: \<open>None\<close> when the method is suspended on \<^verbatim>\<open>resolveId\<close>, and the code that
  runs when it resumes. Both end by calling \<^verbatim>\<open>fetchResolvedDependency\<close>.
\<close>

definition fetchAllDependencies_source ::
  "loader \<Rightarrow> ref \<Rightarrow> string \<Rightarrow> ((rollup_error + fetched) \<times> loader) option" where
  "fetchAllDependencies_source st r source =
     (case deref st r of
        None \<Rightarrow> Some (Inl TypeError, st)
      | Some m \<Rightarrow>
          (case resolvedIds m source of
             None \<Rightarrow> None
           | Some resolved \<Rightarrow>
               Some (fetchResolvedDependency
                       (store r (m\<lparr>resolvedIds := (resolvedIds m)(source \<mapsto> resolved)\<rparr>) st)
                       source (m_id m) resolved)))"

definition fetchAllDependencies_source_resolved ::
  "loader \<Rightarrow> PathUtils \<Rightarrow> ref \<Rightarrow> string \<Rightarrow> ResolveIdResult \<Rightarrow> (rollup_error + fetched) \<times> loader" where
  "fetchAllDependencies_source_resolved st U r source answer =
     (case memoizeResolvedId st U r source answer of
        (Inl e, st1) \<Rightarrow> (Inl e, st1)
      | (Inr resolved, st1) \<Rightarrow>
          (case deref st1 r of
             None \<Rightarrow> (Inl TypeError, st1)
           | Some m \<Rightarrow> fetchResolvedDependency st1 source (m_id m) resolved))"

text \<open>
  \<^verbatim>\<open>resolveDynamicImport\<close>, lines 527-549, after the awaited hook, whose value is
  \<open>resolution\<close>: what it returns, or \<open>None\<close> when it is suspended on \<^verbatim>\<open>resolveId\<close>
  (line 543); then \<open>memoizeResolvedId\<close> runs.
\<close>

datatype dyn_result = DynResolved ResolvedId | DynString string | DynNull

definition resolveDynamicImport ::
  "loader \<Rightarrow> PathUtils \<Rightarrow> ref \<Rightarrow> specifier \<Rightarrow> string \<Rightarrow> ResolveIdResult
     \<Rightarrow> ((rollup_error + dyn_result) \<times> loader) option" where
  "resolveDynamicImport st U r specifier importer resolution =
     (case specifier of
        SpecNode n \<Rightarrow>
          (case resolution of
             RString s \<Rightarrow> Some (Inr (DynString s), st)
           | RObject ob \<Rightarrow>
               Some (Inr (DynResolved
                       \<lparr> r_external = (case p_external ob of Some b \<Rightarrow> b | None \<Rightarrow> False),
                         r_id = p_id ob,
                         r_moduleSideEffects =
                           (case p_moduleSideEffects ob of Some b \<Rightarrow> b | None \<Rightarrow> True),
                         r_syntheticNamedExports =
                           (case p_syntheticNamedExports ob of Some b \<Rightarrow> b | None \<Rightarrow> False) \<rparr>),
                     st)
           | _ \<Rightarrow> Some (Inr DynNull, st))
      | SpecString s \<Rightarrow>
          (if resolution = RNull
           then (case deref st r of
                   None \<Rightarrow> Some (Inl TypeError, st)
                 | Some m \<Rightarrow>
                     (case resolvedIds m s of
                        None \<Rightarrow> None
                      | Some resolved \<Rightarrow>
                          Some (Inr (DynResolved resolved),
                                store r (m\<lparr>resolvedIds := (resolvedIds m)(s \<mapsto> resolved)\<rparr>) st)))
           else (case handleResolveId st U
                        (normalizeResolveIdResult st U resolution (Some importer) s) s importer of
                   (Inl e, st1) \<Rightarrow> Some (Inl e, st1)
                 | (Inr resolved, st1) \<Rightarrow> Some (Inr (DynResolved resolved), st1))))"

text \<open>
  The dynamic imports of \<^verbatim>\<open>fetchAllDependencies\<close>, lines 331-339, after
  \<^verbatim>\<open>resolveDynamicImport\<close> has returned \<open>resolvedId\<close>: only a resolved id is fetched.
\<close>

definition fetchAllDependencies_dynamic ::
  "loader \<Rightarrow> PathUtils \<Rightarrow> ref \<Rightarrow> dyn_result \<Rightarrow> (rollup_error + fetched option) \<times> loader" where
  "fetchAllDependencies_dynamic st U r resolvedId =
     (case resolvedId of
        DynNull \<Rightarrow> (Inr None, st)
      | DynString s \<Rightarrow> (Inr None, st)
      | DynResolved resolved \<Rightarrow>
          (case deref st r of
             None \<Rightarrow> (Inl TypeError, st)
           | Some m \<Rightarrow>
               (case fetchResolvedDependency st (relativeId U (r_id resolved)) (m_id m) resolved of
                  (Inl e, st') \<Rightarrow> (Inl e, st')
                | (Inr f, st') \<Rightarrow> (Inr (Some f), st'))))"

subsection \<open>Executions\<close>

text \<open>
  An execution of the loader is a sequence of the stretches of code defined above, in
  any order in which the scheduler may run them. An event names one stretch with its
  arguments and with the values its awaits yielded. Besides the loader, a configuration
  holds what the suspended methods remember: the modules whose \<^verbatim>\<open>addModuleSource\<close> is
  suspended, and the batches of \<^verbatim>\<open>addEntryModules\<close> in the order of their calls.

  A batch holds the arguments of its call, its first reserved index
  (\<^verbatim>\<open>firstEntryModuleIndex\<close>), what the call of \<^verbatim>\<open>loadEntryModule\<close> made for each of its
  entries (line 145) has come to, and whether the code of lines 148-176 has run for it.
  A call of \<^verbatim>\<open>loadEntryModule\<close> is suspended on the resolver, or it has handed back a
  module, or it has thrown.
\<close>

datatype entry_load = EntryResolving | EntryFetched ref | EntryRejected

record batch =
  bt_first :: nat
  bt_entries :: "UnresolvedModule list"
  bt_isUserDefined :: bool
  bt_loads :: "entry_load list"
  bt_done :: bool

record config =
  ld :: loader
  suspendedLoads :: "ref list"
  batches :: "batch list"

fun fetchedRef :: "entry_load \<Rightarrow> ref option" where
  "fetchedRef (EntryFetched r) = Some r"
| "fetchedRef EntryResolving = None"
| "fetchedRef EntryRejected = None"

text \<open>
  What \<^verbatim>\<open>Promise.all\<close> yields for a batch (line 143): the modules of its entries in their
  order, once every entry has one.
\<close>

definition loadedEntryModules :: "batch \<Rightarrow> ref list option" where
  "loadedEntryModules b = those (map fetchedRef (bt_loads b))"

datatype event =
    LoadEntryModule string bool "string option" ResolveIdResult
  | AddModuleSource ref "string option" "load_result outcome" "string outcome" "ModuleBody outcome"
  | FetchSource ref string
  | FetchSourceResolved ref string ResolveIdResult
  | ResolveDynamicImport ref specifier ResolveIdResult
  | ResolveDynamicImportResolved ref string ResolveIdResult
  | FetchDynamic ref dyn_result
  | Link ref
  | AddEntryModules "UnresolvedModule list" bool
  | LoadEntry nat nat ResolveIdResult
  | AddEntryModulesThen nat
  | AddManualChunksThen "(string \<times> string) list" "ref list"
  | AssignManualChunks "string \<Rightarrow> string list \<Rightarrow> string option"

text \<open>A call that started to load a module leaves its \<^verbatim>\<open>addModuleSource\<close> suspended.\<close>

definition started :: "fetched option \<Rightarrow> loader \<Rightarrow> config \<Rightarrow> config" where
  "started f st c =
     c\<lparr>ld := st,
       suspendedLoads := suspendedLoads c @ (case f of Some (Loading r) \<Rightarrow> [r] | _ \<Rightarrow> [])\<rparr>"

fun fetched_of :: "rollup_error + fetched \<Rightarrow> fetched option" where
  "fetched_of (Inl e) = None"
| "fetched_of (Inr f) = Some f"

fun fetched_opt_of :: "rollup_error + fetched option \<Rightarrow> fetched option" where
  "fetched_opt_of (Inl e) = None"
| "fetched_opt_of (Inr f) = f"

text \<open>
  One event. \<open>AddModuleSource r\<close> runs only for a module whose \<^verbatim>\<open>addModuleSource\<close> is
  suspended, and ends the suspension. \<open>AddEntryModules\<close> is a call up to its first
  suspension: the indices are reserved and \<^verbatim>\<open>loadEntryModule\<close> is called for every entry.
  \<open>LoadEntry n k\<close> resumes the call made for entry \<open>k\<close> of batch \<open>n\<close> with the resolver's
  answer, when that call is still suspended. \<open>AddEntryModulesThen n\<close> runs lines 148-176
  for batch \<open>n\<close>, once, when every entry of the batch has its module. Every other event
  may run at any time; an event that cannot run leaves the configuration as it is.

  In the code the promise of an entry is settled only when its module and all that the
  module imports are loaded and linked, and it is rejected when one of these loads fails;
  here lines 148-176 may run before that. So the executions of the code are among the
  executions defined here. The modules of a batch are in the store when lines 148-176
  run, so the loop does not take its \<open>TypeError\<close> branches.
\<close>

definition step :: "PathUtils \<Rightarrow> event \<Rightarrow> config \<Rightarrow> config" where
  "step U ev c =
     (case ev of
        LoadEntryModule unresolvedId isEntry importer resolveIdResult \<Rightarrow>
          (case loadEntryModule (ld c) unresolvedId isEntry importer resolveIdResult of
             (res, st') \<Rightarrow> started (fetched_of res) st' c)
      | AddModuleSource r importer loaded file transformed \<Rightarrow>
          (if r \<in> set (suspendedLoads c)
           then (case deref (ld c) r of
                   None \<Rightarrow> c
                 | Some m \<Rightarrow>
                     c\<lparr>ld := snd (addModuleSource (ld c) U (m_id m) importer r loaded file transformed),
                       suspendedLoads := removeAll r (suspendedLoads c)\<rparr>)
           else c)
      | FetchSource r source \<Rightarrow>
          (case fetchAllDependencies_source (ld c) r source of
             None \<Rightarrow> c
           | Some (res, st') \<Rightarrow> started (fetched_of res) st' c)
      | FetchSourceResolved r source answer \<Rightarrow>
          (case fetchAllDependencies_source_resolved (ld c) U r source answer of
             (res, st') \<Rightarrow> started (fetched_of res) st' c)
      | ResolveDynamicImport r specifier resolution \<Rightarrow>
          (case deref (ld c) r of
             None \<Rightarrow> c
           | Some m \<Rightarrow>
               (case resolveDynamicImport (ld c) U r specifier (m_id m) resolution of
                  None \<Rightarrow> c
                | Some (res, st') \<Rightarrow> c\<lparr>ld := st'\<rparr>))
      | ResolveDynamicImportResolved r s answer \<Rightarrow>
          c\<lparr>ld := snd (memoizeResolvedId (ld c) U r s answer)\<rparr>
      | FetchDynamic r resolvedId \<Rightarrow>
          (case fetchAllDependencies_dynamic (ld c) U r resolvedId of
             (res, st') \<Rightarrow> started (fetched_opt_of res) st' c)
      | Link r \<Rightarrow> c\<lparr>ld := snd (fetchModule_link (ld c) r)\<rparr>
      | AddEntryModules unresolvedEntryModules isUserDefined \<Rightarrow>
          (case addEntryModules_reserve (ld c) unresolvedEntryModules of
             (firstEntryModuleIndex, st') \<Rightarrow>
               c\<lparr>ld := st',
                 batches := batches c @
                   [\<lparr> bt_first = firstEntryModuleIndex, bt_entries = unresolvedEntryModules,
                      bt_isUserDefined = isUserDefined,
                      bt_loads = replicate (length unresolvedEntryModules) EntryResolving,
                      bt_done = False \<rparr>]\<rparr>)
      | LoadEntry n k resolveIdResult \<Rightarrow>
          (if n < length (batches c) \<and> k < length (bt_entries (batches c ! n)) \<and>
              k < length (bt_loads (batches c ! n)) \<and>
              bt_loads (batches c ! n) ! k = EntryResolving
           then (case loadEntryModule (ld c) (u_id (bt_entries (batches c ! n) ! k)) True
                        (u_importer (bt_entries (batches c ! n) ! k)) resolveIdResult of
                   (res, st') \<Rightarrow>
                     (started (fetched_of res) st' c)
                       \<lparr>batches := (batches c)[n := (batches c ! n)
                          \<lparr>bt_loads := (bt_loads (batches c ! n))
                             [k := (case res of
                                      Inl e \<Rightarrow> EntryRejected
                                    | Inr f \<Rightarrow> EntryFetched (fetched_ref f))]\<rparr>]\<rparr>)
           else c)
      | AddEntryModulesThen n \<Rightarrow>
          (if n < length (batches c) \<and> \<not> bt_done (batches c ! n)
           then (case loadedEntryModules (batches c ! n) of
                   None \<Rightarrow> c
                 | Some entryModules \<Rightarrow>
                     c\<lparr>ld := snd (addEntryModules_then (ld c) (bt_first (batches c ! n))
                                    (bt_entries (batches c ! n))
                                    (bt_isUserDefined (batches c ! n)) entryModules),
                       batches := (batches c)[n := (batches c ! n)\<lparr>bt_done := True\<rparr>]\<rparr>)
           else c)
      | AddManualChunksThen unresolved loadedModules \<Rightarrow>
          c\<lparr>ld := snd (addManualChunks_then unresolved loadedModules (ld c))\<rparr>
      | AssignManualChunks getManualChunk \<Rightarrow>
          c\<lparr>ld := snd (assignManualChunks (ld c) getManualChunk)\<rparr>)"

fun run :: "PathUtils \<Rightarrow> event list \<Rightarrow> config \<Rightarrow> config" where
  "run U [] c = c"
| "run U (ev # evs) c = run U evs (step U ev c)"

text \<open>The configuration of a new loader: nothing is suspended.\<close>

definition start ::
  "(string \<Rightarrow> CachedModule option) \<Rightarrow> (string option \<times> bool) matcher_option \<Rightarrow> mse_option
     \<Rightarrow> unit matcher_option \<Rightarrow> config" where
  "start graph external moduleSideEffects pureExternalModules =
     \<lparr> ld = new_ModuleLoader graph external moduleSideEffects pureExternalModules,
       suspendedLoads = [], batches = [] \<rparr>"

text \<open>
  Lines 178-183 with \<^verbatim>\<open>awaitLoadModulesPromise\<close> (lines 295-310): what the call of
  \<^verbatim>\<open>addEntryModules\<close> that submitted batch \<open>n\<close> returns, when it can return.
  \<^verbatim>\<open>latestLoadModulesPromise\<close> chains the promise of every batch to those of the batches
  submitted before it, and the call awaits the chain: it resumes no earlier than lines
  148-176 have run for its own batch and for every earlier batch, and it never resumes
  once a batch was rejected. It may also have to wait for later batches and for the
  batches of \<^verbatim>\<open>addManualChunks\<close>, which the configuration does not record; so the call can
  return here at every point where the code can, and at more.
\<close>

definition addEntryModules_returns ::
  "config \<Rightarrow> nat \<Rightarrow> (ref list \<times> (string \<times> ref list) list \<times> ref list) option" where
  "addEntryModules_returns c n =
     (if n < length (batches c) \<and> list_all bt_done (take (Suc n) (batches c))
      then map_option (addEntryModules_result (ld c)) (loadedEntryModules (batches c ! n))
      else None)"

subsection \<open>An example\<close>

text \<open>
  A loader with no external ids, and the execution that loads the entry \<^verbatim>\<open>/y.js\<close>, whose
  code is \<^verbatim>\<open>export * from './x'\<close> with own exports \<^verbatim>\<open>foo\<close> and \<^verbatim>\<open>default\<close>, and its
  dependency \<^verbatim>\<open>/x.js\<close>, which exports \<^verbatim>\<open>foo\<close> and \<^verbatim>\<open>bar\<close> and is linked.
\<close>

definition examplePaths :: PathUtils where
  "examplePaths = \<lparr> isRelative = (\<lambda>s. startsWith s ''.'' \<or> startsWith s ''/''),
                    resolve = concat, relativeId = (\<lambda>s. s) \<rparr>"

definition exampleStart :: config where
  "exampleStart = start (\<lambda>_. None) (OptBool False) (MseBool True) (OptBool False)"

definition bodyY :: ModuleBody where
  "bodyY = \<lparr> b_sources = [''./x''], b_dynamicImports = [], b_exportAllSources = [''./x''],
             b_exports = [''foo'', ''default''] \<rparr>"

definition bodyX :: ModuleBody where
  "bodyX = \<lparr> b_sources = [], b_dynamicImports = [], b_exportAllSources = [],
             b_exports = [''foo'', ''bar''] \<rparr>"

definition exampleLoad :: "event list" where
  "exampleLoad =
     [LoadEntryModule ''y'' True None (RString ''/y.js''),
      AddModuleSource 0 None (Returns (LoadString ''code of y'')) (Returns []) (Returns bodyY),
      FetchSource 0 ''./x'',
      FetchSourceResolved 0 ''./x'' (RString ''/x.js''),
      AddModuleSource 1 (Some ''/y.js'') (Returns LoadNull) (Returns ''code of x'') (Returns bodyX),
      Link 1]"


text \<open>
  Two importers of the id \<^verbatim>\<open>x\<close>: \<^verbatim>\<open>/a.js\<close> imports \<^verbatim>\<open>x\<close>, which a plugin resolves as
  external; then \<^verbatim>\<open>/b.js\<close> imports \<^verbatim>\<open>./y\<close>, which the resolver resolves to the id \<^verbatim>\<open>x\<close>,
  not external.
\<close>

definition bodyA :: ModuleBody where
  "bodyA = \<lparr> b_sources = [''x''], b_dynamicImports = [], b_exportAllSources = [], b_exports = [] \<rparr>"

definition bodyB :: ModuleBody where
  "bodyB = \<lparr> b_sources = [''./y''], b_dynamicImports = [], b_exportAllSources = [], b_exports = [] \<rparr>"

definition exampleExternalFirst :: "event list" where
  "exampleExternalFirst =
     [LoadEntryModule ''a'' True None (RString ''/a.js''),
      AddModuleSource 0 None (Returns (LoadString ''import \"x\"'')) (Returns []) (Returns bodyA),
      FetchSource 0 ''x'',
      FetchSourceResolved 0 ''x''
        (RObject \<lparr> p_id = ''x'', p_external = Some True, p_moduleSideEffects = None,
                   p_syntheticNamedExports = None \<rparr>)]"

definition exampleInternalSecond :: "event list" where
  "exampleInternalSecond =
     [LoadEntryModule ''b'' True None (RString ''/b.js''),
      AddModuleSource 2 None (Returns (LoadString ''import \"./y\"'')) (Returns []) (Returns bodyB),
      FetchSource 2 ''./y'',
      FetchSourceResolved 2 ''./y'' (RString ''x'')]"

text \<open>
  A module with the static import \<^verbatim>\<open>./x\<close> and the dynamic import \<^verbatim>\<open>import('./x')\<close>, loaded
  and parsed.
\<close>

definition bodyM :: ModuleBody where
  "bodyM = \<lparr> b_sources = [''./x''], b_dynamicImports = [SpecString ''./x''],
             b_exportAllSources = [], b_exports = [] \<rparr>"

definition exampleBothSuspended :: "event list" where
  "exampleBothSuspended =
     [LoadEntryModule ''m'' True None (RString ''/m.js''),
      AddModuleSource 0 None (Returns (LoadString ''import \"./x\"; import(\"./x\")''))
        (Returns []) (Returns bodyM)]"

text \<open>
  A module loaded for the manual chunk \<^verbatim>\<open>a\<close>: \<^verbatim>\<open>addManualChunks({a: ['m']})\<close>, where \<^verbatim>\<open>m\<close>
  resolves to \<^verbatim>\<open>/m.js\<close>.
\<close>

definition exampleChunk :: "event list" where
  "exampleChunk =
     [LoadEntryModule ''m'' False None (RString ''/m.js''),
      AddModuleSource 0 None (Returns (LoadString ''code of m'')) (Returns [])
        (Returns \<lparr> b_sources = [], b_dynamicImports = [], b_exportAllSources = [], b_exports = [] \<rparr>),
      Link 0,
      AddManualChunksThen (unresolvedManualChunks [(''a'', [''m''])]) [0]]"

text \<open>
  The same module, with a manual chunk named \<^verbatim>\<open>constructor\<close>:
  \<^verbatim>\<open>addManualChunks({constructor: ['m']})\<close>.
\<close>

definition exampleInherited :: "event list" where
  "exampleInherited =
     butlast exampleChunk @
     [AddManualChunksThen (unresolvedManualChunks [(''constructor'', [''m''])]) [0]]"

text \<open>
  Three batches of entries: \<^verbatim>\<open>[a, b]\<close>, then \<^verbatim>\<open>[b, b]\<close>, then \<^verbatim>\<open>[b]\<close>. The entries of the
  second batch are resolved and loaded first, then those of the first batch; the entry of
  the third batch is not resolved yet. The two modules import and export nothing.
\<close>

definition entryA :: UnresolvedModule where
  "entryA = \<lparr> u_fileName = None, u_id = ''a'', u_importer = None, u_name = Some ''a'' \<rparr>"

definition entryB :: UnresolvedModule where
  "entryB = \<lparr> u_fileName = None, u_id = ''b'', u_importer = None, u_name = None \<rparr>"

definition bodyPlain :: ModuleBody where
  "bodyPlain = \<lparr> b_sources = [], b_dynamicImports = [], b_exportAllSources = [], b_exports = [] \<rparr>"

definition exampleEntries :: "event list" where
  "exampleEntries =
     [AddEntryModules [entryA, entryB] True,
      AddEntryModules [entryB, entryB] False,
      AddEntryModules [entryB] False,
      LoadEntry 1 0 (RString ''/b.js''),
      LoadEntry 1 1 (RString ''/b.js''),
      AddModuleSource 0 None (Returns (LoadString ''code of b'')) (Returns []) (Returns bodyPlain),
      Link 0,
      AddEntryModulesThen 1,
      LoadEntry 0 0 (RString ''/a.js''),
      LoadEntry 0 1 (RString ''/b.js''),
      AddModuleSource 1 None (Returns (LoadString ''code of a'')) (Returns []) (Returns bodyPlain),
      Link 1,
      AddEntryModulesThen 0]"

text \<open>
  A batch \<^verbatim>\<open>[a, b]\<close> whose entry \<^verbatim>\<open>b\<close> the resolver does not resolve, so that
  \<^verbatim>\<open>loadEntryModule\<close> throws \<^verbatim>\<open>UNRESOLVED_ENTRY\<close> and the batch is rejected; then a batch
  \<^verbatim>\<open>[a]\<close>, which is loaded.
\<close>

definition exampleRejected :: "event list" where
  "exampleRejected =
     [AddEntryModules [entryA, entryB] True,
      LoadEntry 0 0 (RString ''/a.js''),
      LoadEntry 0 1 RNull,
      AddEntryModules [entryA] True,
      LoadEntry 1 0 (RString ''/a.js''),
      AddEntryModulesThen 1]"

subsection \<open>Relations between states and invariants of executions\<close>

text \<open>
  \<open>mutates st st'\<close>: from \<open>st\<close> to \<open>st'\<close> the registry, the next reference and the calls of
  the load hook are the same, and every object is the same but for the fields of
  internal modules other than their id.
\<close>

definition mutates :: "loader \<Rightarrow> loader \<Rightarrow> bool" where
  "mutates st st' \<longleftrightarrow>
     modulesById st' = modulesById st \<and> nextRef st' = nextRef st \<and>
     loadCalls st' = loadCalls st \<and>
     (\<forall>r. case heap st r of
            None \<Rightarrow> heap st' r = None
          | Some (External x) \<Rightarrow> heap st' r = Some (External x)
          | Some (Internal m) \<Rightarrow> (\<exists>m'. heap st' r = Some (Internal m') \<and> m_id m' = m_id m))"

text \<open>\<open>quiet\<close>: moreover the other calls and the entry list are the same.\<close>

definition quiet :: "loader \<Rightarrow> loader \<Rightarrow> bool" where
  "quiet st st' \<longleftrightarrow>
     mutates st st' \<and> readFileCalls st' = readFileCalls st \<and>
     transformCalls st' = transformCalls st \<and>
     indexedEntryModules st' = indexedEntryModules st \<and>
     nextEntryModuleIndex st' = nextEntryModuleIndex st"

text \<open>\<open>allocates st ob i st'\<close>: a new object \<open>ob\<close> is stored and registered under \<open>i\<close>.\<close>

definition allocates :: "loader \<Rightarrow> obj \<Rightarrow> string \<Rightarrow> loader \<Rightarrow> bool" where
  "allocates st ob i st' \<longleftrightarrow>
     heap st' = (heap st)(nextRef st \<mapsto> ob) \<and> nextRef st' = Suc (nextRef st) \<and>
     modulesById st' = AList.update i (nextRef st) (modulesById st) \<and>
     readFileCalls st' = readFileCalls st \<and> transformCalls st' = transformCalls st \<and>
     indexedEntryModules st' = indexedEntryModules st \<and>
     nextEntryModuleIndex st' = nextEntryModuleIndex st"

text \<open>
  \<open>fetches st f st'\<close>: what a call that may fetch a module does. After quiet changes it
  either creates an internal module under an id that had none and calls the load hook
  for it (\<open>f\<close> is then \<open>Loading\<close>), or it creates an external module under an id that had
  no module, or it creates nothing.
\<close>

definition fetches :: "loader \<Rightarrow> fetched option \<Rightarrow> loader \<Rightarrow> bool" where
  "fetches st f st' \<longleftrightarrow>
     (\<exists>st1. quiet st st1 \<and>
        (case f of
           Some (Loading r) \<Rightarrow>
             r = nextRef st1 \<and>
             (\<exists>m. getModule st1 (m_id m) = None \<and> allocates st1 (Internal m) (m_id m) st' \<and>
                  loadCalls st' = loadCalls st1 @ [m_id m])
         | _ \<Rightarrow>
             st' = st1 \<or>
             (\<exists>x i. map_of (modulesById st1) i = None \<and> allocates st1 (External x) i st' \<and>
                    loadCalls st' = loadCalls st1)))"

text \<open>
  \<open>registered\<close>: references from \<open>nextRef\<close> on are unused, and every internal module is
  registered under its own id.
\<close>

definition registered :: "loader \<Rightarrow> bool" where
  "registered st \<longleftrightarrow>
     (\<forall>r. nextRef st \<le> r \<longrightarrow> heap st r = None) \<and>
     (\<forall>r m. heap st r = Some (Internal m) \<longrightarrow> map_of (modulesById st) (m_id m) = Some r)"

text \<open>\<open>calm\<close>: \<open>mutates\<close>, and the calls of the file system and the transformer are the same.\<close>

definition calm :: "loader \<Rightarrow> loader \<Rightarrow> bool" where
  "calm st st' \<longleftrightarrow> mutates st st' \<and> readFileCalls st' = readFileCalls st \<and>
     transformCalls st' = transformCalls st"

text \<open>
  The invariant of the calls: no id occurs twice among the calls of the load hook, of
  the file system or of the transformer; each id called for has an internal module in
  the registry; and the suspended \<^verbatim>\<open>addModuleSource\<close> calls are for different modules,
  for which neither the file system nor the transformer has been called.
\<close>

definition loads_inv :: "config \<Rightarrow> bool" where
  "loads_inv c \<longleftrightarrow>
     registered (ld c) \<and>
     distinct (loadCalls (ld c)) \<and> distinct (readFileCalls (ld c)) \<and>
     distinct (transformCalls (ld c)) \<and>
     (\<forall>i \<in> set (loadCalls (ld c)) \<union> set (readFileCalls (ld c)) \<union> set (transformCalls (ld c)).
        getModule (ld c) i \<noteq> None) \<and>
     distinct (suspendedLoads c) \<and>
     (\<forall>r \<in> set (suspendedLoads c). \<exists>m. deref (ld c) r = Some m \<and>
        m_id m \<notin> set (readFileCalls (ld c)) \<and> m_id m \<notin> set (transformCalls (ld c)))"




text \<open>
  The indices reserved for modules. Entry \<open>k\<close> of a batch holds the index
  \<^verbatim>\<open>firstEntryModuleIndex\<close> \<open>+ k\<close> (lines 148 and 171); it is reserved for the module that
  the entry's \<^verbatim>\<open>loadEntryModule\<close> has handed back. \<open>reserved\<close> are the pairs of index and
  module of all batches, \<open>applied\<close> those of the batches for which lines 148-176 have run.
\<close>

definition reservations :: "batch \<Rightarrow> (nat \<times> ref) list" where
  "reservations b =
     concat (map (\<lambda>(s, l). case fetchedRef l of Some r \<Rightarrow> [(s, r)] | None \<Rightarrow> [])
               (zip [bt_first b ..< bt_first b + length (bt_loads b)] (bt_loads b)))"

definition reserved :: "config \<Rightarrow> (nat \<times> ref) list" where
  "reserved c = concat (map reservations (batches c))"

definition applied :: "config \<Rightarrow> (nat \<times> ref) list" where
  "applied c = concat (map reservations (filter bt_done (batches c)))"


section \<open>Properties\<close>

subsection \<open>Evaluation and the store\<close>

lemmas eval_defs = examplePaths_def exampleStart_def bodyY_def bodyX_def exampleLoad_def
  bodyA_def bodyB_def exampleExternalFirst_def exampleInternalSecond_def bodyM_def
  exampleBothSuspended_def exampleChunk_def exampleInherited_def resolveDynamicImport_def unresolvedManualChunks_def
  addModuleToManualChunk_def pushManualChunk_def getProperty_def objectPrototype_def
  assignManualChunks_def
  entryA_def entryB_def bodyPlain_def exampleEntries_def exampleRejected_def addEntryModules_reserve_def
  loadedEntryModules_def reservations_def reserved_def applied_def addEntryModules_returns_def
  addEntryModules_result_def
  addEntryModules_then_def markEntryModule_def sortIndexed_def
  start_def new_ModuleLoader_def step_def started_def loadEntryModule_def fetchModule_def
  getModule_def store_def deref_def new_Module_def new_ExternalModule_def addModuleSource_def addModuleSource_loaded_def
  transformModule_def setSource_def fetchAllDependencies_source_def fetchAllDependencies_source_resolved_def
  memoizeResolvedId_def handleResolveId_def resolveId_def normalizeResolveIdResult_def
  fetchResolvedDependency_def fetchModule_link_def exportAllModuleOf_def warn_def set_add_def Let_def


lemma deref_store [simp]: "deref (store r m st) r' = (if r' = r then Some m else deref st r')"
  by (simp add: deref_def store_def)

lemma deref_warn [simp]: "deref (warn e st) r = deref st r"
  by (simp add: deref_def warn_def)


subsection \<open>Synthetic ids and user functions\<close>

text \<open>
  Claim C9. For every id that begins with the NUL character, the predicate that
  \<^verbatim>\<open>getIdMatcher\<close> compiles from a user function returns false and makes no call of the
  function, and the side-effect policy that \<^verbatim>\<open>getHasModuleSideEffects\<close> derives from a
  user function returns true and makes no call of the function. The same holds for the
  function given as \<^verbatim>\<open>pureExternalModules\<close> in the default policy, and so for the two
  policies of a loader built from such functions.
\<close>

theorem synthetic_ids_never_reach_user_functions:
  assumes "startsWith i NUL"
  shows "getIdMatcher (OptFun f) i args = (False, [])
       \<and> getHasModuleSideEffects (MseFun g) pureExternalModules i ext = (True, [])
       \<and> getHasModuleSideEffects (MseOther t) (OptFun h) i ext = (True, [])
       \<and> isExternal (new_ModuleLoader graph (OptFun f') moduleSideEffects pureExternalModules)
            i importer isResolved = False
       \<and> hasModuleSideEffects (new_ModuleLoader graph external (MseFun g) pureExternalModules)
            i ext = True"
  using assms by (simp add: new_ModuleLoader_def)

theorem synthetic_ids_never_reach_user_functions_witness:
  "startsWith (CHR 0x00 # ''virtual:x'') NUL
   \<and> getIdMatcher (OptFun (\<lambda>_ _. JTrue)) (CHR 0x00 # ''virtual:x'') (None :: string option, False)
       = (False, [])
   \<and> getHasModuleSideEffects (MseFun (\<lambda>_ _. JFalse)) (OptBool False) (CHR 0x00 # ''virtual:x'') True
       = (True, [])"
  using synthetic_ids_never_reach_user_functions
    [of "CHR 0x00 # ''virtual:x''" "\<lambda>_ _. JTrue" "(None :: string option, False)"
        "\<lambda>_ _. JFalse" "OptBool False" True]
  by (simp add: startsWith_def NUL_def)

subsection \<open>Unresolved imports\<close>

text \<open>
  Claim C3. \<^verbatim>\<open>handleResolveId(null, s, i)\<close> throws the error \<^verbatim>\<open>UNRESOLVED_IMPORT\<close> when
  \<open>s\<close> is relative, and records nothing; when \<open>s\<close> is not relative it records the warning
  \<^verbatim>\<open>UNRESOLVED_IMPORT_TREATED_AS_EXTERNAL\<close> and returns the external resolved id \<open>s\<close>
  with the side-effect policy's verdict for \<open>(s, true)\<close> and no synthetic named exports.
  A resolution that is not null is returned as it is, with the warning
  \<^verbatim>\<open>EXTERNAL_SYNTHETIC_EXPORTS\<close> exactly when it is external with synthetic named exports.
\<close>

theorem handleResolveId_unresolved_policy:
  "handleResolveId st U None s i =
     (if isRelative U s
      then (Inl (errUnresolvedImport s i), st)
      else (Inr \<lparr> r_external = True, r_id = s,
                  r_moduleSideEffects = hasModuleSideEffects st s True,
                  r_syntheticNamedExports = False \<rparr>,
            st\<lparr>warnings := warnings st @ [errUnresolvedImportTreatedAsExternal s i]\<rparr>))
   \<and> handleResolveId st U (Some resolved) s i =
     (Inr resolved,
      if r_external resolved \<and> r_syntheticNamedExports resolved
      then st\<lparr>warnings := warnings st @ [errExternalSyntheticExports s i]\<rparr>
      else st)
   \<and> code (errUnresolvedImport s i) = ''UNRESOLVED_IMPORT''
   \<and> code (errUnresolvedImportTreatedAsExternal s i) = ''UNRESOLVED_IMPORT_TREATED_AS_EXTERNAL''
   \<and> code (errExternalSyntheticExports s i) = ''EXTERNAL_SYNTHETIC_EXPORTS''"
  by (simp add: handleResolveId_def warn_def)

subsection \<open>The alias of a manual chunk\<close>

lemma addModuleToManualChunk_assigned:
  assumes "deref st r = Some m" and "manualChunkAlias m = Some a"
  shows "(b \<noteq> a \<longrightarrow>
            addModuleToManualChunk st b r = (Inl (errCannotAssignModuleToChunk (m_id m) b a), st))
       \<and> map_option manualChunkAlias (deref (snd (addModuleToManualChunk st a r)) r) = Some (Some a)
       \<and> (fst (addModuleToManualChunk st a r) = Inr () \<longleftrightarrow>
            getProperty (manualChunkModules st) a \<noteq> InheritedProperty)"
  using assms
  by (auto simp: addModuleToManualChunk_def pushManualChunk_def getProperty_def store_def deref_def
        Let_def update_conv' split: option.splits if_splits)

text \<open>
  Claim C7. For a module whose \<^verbatim>\<open>manualChunkAlias\<close> is the alias \<open>a\<close>,
  \<^verbatim>\<open>addModuleToManualChunk(a, M)\<close> does not succeed for every \<open>a\<close>. After
  \<^verbatim>\<open>addManualChunks({constructor: ['m']})\<close>, which throws a \<^verbatim>\<open>TypeError\<close> at line 292 once it
  has assigned the alias at line 288, the alias of the module is \<^verbatim>\<open>constructor\<close>, no list has
  been created, and \<^verbatim>\<open>addModuleToManualChunk('constructor', M)\<close> throws a \<^verbatim>\<open>TypeError\<close> again;
  the alias is still \<^verbatim>\<open>constructor\<close>.
\<close>

theorem addModuleToManualChunk_inherited_alias_throws:
  "fst (addManualChunks_then (unresolvedManualChunks [(''constructor'', [''m''])]) [0]
          (ld (run examplePaths (butlast exampleChunk) exampleStart))) = Inl TypeError
   \<and> map_option manualChunkAlias (deref (ld (run examplePaths exampleInherited exampleStart)) 0)
       = Some (Some ''constructor'')
   \<and> manualChunkModules (ld (run examplePaths exampleInherited exampleStart)) = []
   \<and> fst (addModuleToManualChunk (ld (run examplePaths exampleInherited exampleStart))
            ''constructor'' 0) = Inl TypeError
   \<and> map_option manualChunkAlias
        (deref (snd (addModuleToManualChunk (ld (run examplePaths exampleInherited exampleStart))
                       ''constructor'' 0)) 0) = Some (Some ''constructor'')"
  by (simp add: eval_defs)

subsection \<open>Linking the exports\<close>















subsection \<open>Entries and the configured policies\<close>

text \<open>
  Claim C10. \<^verbatim>\<open>loadEntryModule\<close> does not consult the external predicate nor the
  side-effect policy: with any other two in their place it returns the same result and
  makes the same changes. An id the resolver returned as a string, or as an object not
  marked external, is fetched as an internal module, whatever the external predicate
  says of it; a module created for it has \<^verbatim>\<open>moduleSideEffects\<close> true and
  \<^verbatim>\<open>syntheticNamedExports\<close> false. For contrast, \<^verbatim>\<open>resolveId\<close> of the loader, used for
  imports, makes every source the external predicate matches external.
\<close>

theorem loadEntryModule_bypasses_policies:
  "loadEntryModule (st\<lparr>isExternal := ext, hasModuleSideEffects := pol\<rparr>)
       unresolvedId isEntry importer resolveIdResult
     = (fst (loadEntryModule st unresolvedId isEntry importer resolveIdResult),
        (snd (loadEntryModule st unresolvedId isEntry importer resolveIdResult))
          \<lparr>isExternal := ext, hasModuleSideEffects := pol\<rparr>)
   \<and> (resolveIdResult = RString i \<or>
        (resolveIdResult = RObject ob \<and> p_external ob \<noteq> Some True) \<longrightarrow>
        (\<exists>f m. fst (loadEntryModule st unresolvedId isEntry importer resolveIdResult) = Inr f
           \<and> deref (snd (loadEntryModule st unresolvedId isEntry importer resolveIdResult))
                (fetched_ref f) = Some m))
   \<and> (fst (loadEntryModule st unresolvedId isEntry importer resolveIdResult) = Inr (Loading r) \<longrightarrow>
        (\<exists>m. deref (snd (loadEntryModule st unresolvedId isEntry importer resolveIdResult)) r = Some m
           \<and> m_moduleSideEffects m \<and> \<not> m_syntheticNamedExports m))
   \<and> (isExternal st source importer False \<longrightarrow>
        map_option r_external (resolveId st U source importer answer) = Some True)"
proof (intro conjI impI)
  show "loadEntryModule (st\<lparr>isExternal := ext, hasModuleSideEffects := pol\<rparr>)
       unresolvedId isEntry importer resolveIdResult
     = (fst (loadEntryModule st unresolvedId isEntry importer resolveIdResult),
        (snd (loadEntryModule st unresolvedId isEntry importer resolveIdResult))
          \<lparr>isExternal := ext, hasModuleSideEffects := pol\<rparr>)"
    by (auto simp: loadEntryModule_def fetchModule_def getModule_def store_def
             split: option.splits obj.splits ResolveIdResult.splits)
next
  assume "resolveIdResult = RString i \<or>
        (resolveIdResult = RObject ob \<and> p_external ob \<noteq> Some True)"
  then show "\<exists>f m. fst (loadEntryModule st unresolvedId isEntry importer resolveIdResult) = Inr f
           \<and> deref (snd (loadEntryModule st unresolvedId isEntry importer resolveIdResult))
                (fetched_ref f) = Some m"
    by (auto simp: loadEntryModule_def fetchModule_def getModule_def store_def deref_def
             split: option.splits obj.splits)
next
  assume "fst (loadEntryModule st unresolvedId isEntry importer resolveIdResult) = Inr (Loading r)"
  then show "\<exists>m. deref (snd (loadEntryModule st unresolvedId isEntry importer resolveIdResult)) r = Some m
           \<and> m_moduleSideEffects m \<and> \<not> m_syntheticNamedExports m"
    by (auto simp: loadEntryModule_def fetchModule_def getModule_def store_def deref_def new_Module_def
             split: option.splits obj.splits ResolveIdResult.splits if_splits)
next
  assume "isExternal st source importer False"
  then show "map_option r_external (resolveId st U source importer answer) = Some True"
    by (simp add: resolveId_def normalizeResolveIdResult_def Let_def)
qed

theorem loadEntryModule_bypasses_policies_witness:
  "isExternal (new_ModuleLoader (\<lambda>_. None) (OptBool True) (MseBool False) (OptBool False))
      ''/main.js'' None False
   \<and> \<not> hasModuleSideEffects (new_ModuleLoader (\<lambda>_. None) (OptBool True) (MseBool False) (OptBool False))
      ''/main.js'' False
   \<and> fst (loadEntryModule (new_ModuleLoader (\<lambda>_. None) (OptBool True) (MseBool False) (OptBool False))
        ''main'' True None (RString ''/main.js'')) = Inr (Loading 0)
   \<and> map_option m_moduleSideEffects
        (deref (snd (loadEntryModule
           (new_ModuleLoader (\<lambda>_. None) (OptBool True) (MseBool False) (OptBool False))
           ''main'' True None (RString ''/main.js''))) 0) = Some True
   \<and> map_option m_syntheticNamedExports
        (deref (snd (loadEntryModule
           (new_ModuleLoader (\<lambda>_. None) (OptBool True) (MseBool False) (OptBool False))
           ''main'' True None (RString ''/main.js''))) 0) = Some False
   \<and> map_option r_external
        (resolveId (new_ModuleLoader (\<lambda>_. None) (OptBool True) (MseBool False) (OptBool False))
           examplePaths ''/main.js'' None (RString ''/main.js'')) = Some True"
  using loadEntryModule_bypasses_policies
    [where st = "new_ModuleLoader (\<lambda>_. None) (OptBool True) (MseBool False) (OptBool False)"
       and unresolvedId = "''main''" and isEntry = True and importer = None
       and resolveIdResult = "RString ''/main.js''" and i = "''/main.js''" and r = 0
       and source = "''/main.js''" and U = examplePaths and answer = "RString ''/main.js''"]
  by (simp add: eval_defs)

subsection \<open>One module object for each id\<close>

text \<open>
  Claim C2 says that a module stored under an id is never replaced by another object.
  The code replaces an external module: \<^verbatim>\<open>fetchModule\<close> only looks for an instance of
  \<^verbatim>\<open>Module\<close> under the id, and stores a new module over anything else. In the example,
  after \<^verbatim>\<open>/a.js\<close> has imported \<^verbatim>\<open>x\<close> as external the registry holds the external module
  (object 1) under \<^verbatim>\<open>x\<close>; after \<^verbatim>\<open>/b.js\<close> has imported the same id as internal it holds a
  new module (object 3) under \<^verbatim>\<open>x\<close>, while the external module still exists.
\<close>

theorem external_module_is_replaced:
  "map_of (modulesById (ld (run examplePaths exampleExternalFirst exampleStart))) ''x'' = Some 1
   \<and> heap (ld (run examplePaths exampleExternalFirst exampleStart)) 1
       = Some (External (new_ExternalModule ''x'' True))
   \<and> map_of (modulesById (ld (run examplePaths (exampleExternalFirst @ exampleInternalSecond)
         exampleStart))) ''x'' = Some 3
   \<and> heap (ld (run examplePaths (exampleExternalFirst @ exampleInternalSecond) exampleStart)) 3
       = Some (Internal (new_Module ''x'' True False False))
   \<and> heap (ld (run examplePaths (exampleExternalFirst @ exampleInternalSecond) exampleStart)) 1
       = Some (External (new_ExternalModule ''x'' True))"
  by (simp add: eval_defs)

subsection \<open>The memo of resolved ids\<close>

text \<open>
  Claim C4 says that \<^verbatim>\<open>resolvedIds[s]\<close> of a module is written at most once and that
  later lookups see the first value. In the example the static import and the dynamic
  import of \<^verbatim>\<open>./x\<close> both read the empty memo and are suspended on the resolver; when
  the resolver answers the first, the entry is written, and when it answers the second,
  the entry is written again, here with another resolved id.
\<close>

theorem resolvedIds_written_twice:
  "fetchAllDependencies_source (ld (run examplePaths exampleBothSuspended exampleStart)) 0 ''./x'' = None
   \<and> resolveDynamicImport (ld (run examplePaths exampleBothSuspended exampleStart)) examplePaths 0
        (SpecString ''./x'') ''/m.js'' RNull = None
   \<and> map_option r_id (resolvedIds (the (deref (ld (run examplePaths
        (exampleBothSuspended @ [FetchSourceResolved 0 ''./x'' (RString ''/x1.js'')])
        exampleStart)) 0)) ''./x'') = Some ''/x1.js''
   \<and> map_option r_id (resolvedIds (the (deref (ld (run examplePaths
        (exampleBothSuspended @ [FetchSourceResolved 0 ''./x'' (RString ''/x1.js''),
                                 ResolveDynamicImportResolved 0 ''./x'' (RString ''/x2.js'')])
        exampleStart)) 0)) ''./x'') = Some ''/x2.js''"
  by (simp add: eval_defs)

subsection \<open>Assigning the same manual chunk again\<close>

lemma heap_store_same: "deref st r = Some m \<Longrightarrow> store r m st = st"
  by (auto simp: deref_def store_def fun_upd_idem split: option.splits obj.splits)

lemma addModuleToManualChunk_same_alias:
  assumes "deref st r = Some m" and "manualChunkAlias m = Some a"
  shows "addModuleToManualChunk st a r = pushManualChunk a r st"
proof -
  have "m\<lparr>manualChunkAlias := Some a\<rparr> = m" using assms(2) by simp
  then have "store r (m\<lparr>manualChunkAlias := Some a\<rparr>) st = st"
    using heap_store_same[OF assms(1)] by (simp only:)
  then show ?thesis
    unfolding addModuleToManualChunk_def using assms by (simp only: option.case if_False simp_thms)
qed

lemma assignManualChunks_loop_none:
  assumes "\<forall>r \<in> set rs. \<forall>m. deref st r = Some m \<longrightarrow>
             getManualChunk (m_id m) (map fst (modulesById st)) = None"
  shows "assignManualChunks_loop getManualChunk rs st = (Inr (), st)"
  using assms by (induction rs) (auto split: option.splits)

lemma assignManualChunks_loop_append:
  "assignManualChunks_loop g (xs @ ys) st =
     (case assignManualChunks_loop g xs st of
        (Inl e, st') \<Rightarrow> (Inl e, st')
      | (Inr u, st') \<Rightarrow> assignManualChunks_loop g ys st')"
  by (induction xs arbitrary: st) (auto split: option.splits prod.splits sum.splits)

lemma deref_pushManualChunk [simp]: "deref (snd (pushManualChunk a r st)) r' = deref st r'"
  by (simp add: pushManualChunk_def deref_def Let_def split: property.splits)

lemma modulesById_pushManualChunk [simp]:
  "modulesById (snd (pushManualChunk a r st)) = modulesById st"
  by (simp add: pushManualChunk_def Let_def split: property.splits)

lemma pushManualChunk_present:
  "map_of (manualChunkModules st) a = Some ms \<Longrightarrow>
   pushManualChunk a r st =
     (Inr (), st\<lparr>manualChunkModules := AList.update a (ms @ [r]) (manualChunkModules st)\<rparr>)"
  by (simp add: pushManualChunk_def getProperty_def)

lemma map_of_pushManualChunk:
  "fst (pushManualChunk a r st) = Inr () \<Longrightarrow>
   map_of (manualChunkModules (snd (pushManualChunk a r st))) a
     = Some ((case map_of (manualChunkModules st) a of Some ms \<Rightarrow> ms | None \<Rightarrow> []) @ [r])"
  by (auto simp: pushManualChunk_def getProperty_def update_conv' Let_def
        split: option.splits if_splits)

text \<open>
  Claim C8, amended. After \<^verbatim>\<open>addManualChunks({a: [id]})\<close> has loaded the module and
  assigned it to \<open>a\<close>, \<^verbatim>\<open>assignManualChunks(fn)\<close>, where \<open>fn\<close> returns \<open>a\<close> for the
  module's id and no alias for every other module of the registry, throws no error and
  leaves every module as it is, with \<^verbatim>\<open>manualChunkAlias\<close> still \<open>a\<close>; of the loader's state
  only the list under \<open>a\<close> in \<^verbatim>\<open>manualChunkModules\<close> changes: the module is pushed to it
  once more, so that it ends with the module twice.
\<close>

theorem assignManualChunks_after_addManualChunks:
  assumes "addManualChunks_then (unresolvedManualChunks [(a, [i])]) [r] st0 = (Inr (), st)"
    and "deref st r = Some m"
    and "getManualChunk (m_id m) (map fst (modulesById st)) = Some a"
    and "map snd (modulesById st) = rs1 @ r # rs2"
    and "\<forall>r' \<in> set (rs1 @ rs2). \<forall>m'. deref st r' = Some m' \<longrightarrow>
           getManualChunk (m_id m') (map fst (modulesById st)) = None"
  shows "manualChunkAlias m = Some a
       \<and> (\<exists>ms. map_of (manualChunkModules st) a = Some (ms @ [r])
            \<and> assignManualChunks st getManualChunk =
                (Inr (), st\<lparr>manualChunkModules :=
                              AList.update a (ms @ [r, r]) (manualChunkModules st)\<rparr>))"
proof -
  from assms(1) have add: "addModuleToManualChunk st0 a r = (Inr (), st)"
    by (auto simp: unresolvedManualChunks_def split: prod.splits sum.splits)
  then obtain m0 where m0: "deref st0 r = Some m0"
    by (auto simp: addModuleToManualChunk_def split: option.splits)
  let ?assigned = "store r (m0\<lparr>manualChunkAlias := Some a\<rparr>) st0"
  from add m0 have push: "pushManualChunk a r ?assigned = (Inr (), st)"
    by (auto simp: addModuleToManualChunk_def split: option.splits if_splits)
  have st: "st = snd (pushManualChunk a r ?assigned)" and ok: "fst (pushManualChunk a r ?assigned) = Inr ()"
    using push by simp_all
  have "deref st r = Some (m0\<lparr>manualChunkAlias := Some a\<rparr>)"
    unfolding st by simp
  then have al: "manualChunkAlias m = Some a"
    using assms(2) by auto
  obtain ms where ms: "map_of (manualChunkModules st) a = Some (ms @ [r])"
    unfolding st using map_of_pushManualChunk[OF ok] by blast
  let ?pushed = "st\<lparr>manualChunkModules := AList.update a (ms @ [r, r]) (manualChunkModules st)\<rparr>"
  have none1: "assignManualChunks_loop getManualChunk rs1 st = (Inr (), st)"
    using assms(5) by (intro assignManualChunks_loop_none) auto
  have one: "addModuleToManualChunk st a r = (Inr (), ?pushed)"
    using addModuleToManualChunk_same_alias[OF assms(2) al] pushManualChunk_present[OF ms]
    by simp
  have d1: "\<And>r'. deref ?pushed r' = deref st r'" by (simp add: deref_def)
  have none2: "assignManualChunks_loop getManualChunk rs2 ?pushed = (Inr (), ?pushed)"
    using assms(5) by (intro assignManualChunks_loop_none) (auto simp: d1)
  have "assignManualChunks st getManualChunk = (Inr (), ?pushed)"
    unfolding assignManualChunks_def assms(4) assignManualChunks_loop_append
    using none1 one none2 assms(2,3) by simp
  with al ms show ?thesis by blast
qed

text \<open>
  The claim as it was stated, that the state is the same as after \<^verbatim>\<open>addManualChunks\<close>
  alone, fails on the example: the list under \<open>a\<close> is \<open>[0]\<close> before and \<open>[0, 0]\<close> after.
\<close>

theorem assignManualChunks_is_not_a_no_op:
  "fst (assignManualChunks (ld (run examplePaths exampleChunk exampleStart))
         (\<lambda>i ids. if i = ''/m.js'' then Some ''a'' else None)) = Inr ()
   \<and> manualChunkModules (ld (run examplePaths exampleChunk exampleStart)) = [(''a'', [0])]
   \<and> manualChunkModules (snd (assignManualChunks (ld (run examplePaths exampleChunk exampleStart))
         (\<lambda>i ids. if i = ''/m.js'' then Some ''a'' else None))) = [(''a'', [0, 0])]"
  by (simp add: eval_defs)

theorem assignManualChunks_after_addManualChunks_witness:
  "fst (addManualChunks_then (unresolvedManualChunks [(''a'', [''m''])]) [0]
       (ld (run examplePaths (butlast exampleChunk) exampleStart))) = Inr ()
   \<and> snd (addManualChunks_then (unresolvedManualChunks [(''a'', [''m''])]) [0]
       (ld (run examplePaths (butlast exampleChunk) exampleStart)))
       = ld (run examplePaths exampleChunk exampleStart)
   \<and> map_option manualChunkAlias (deref (ld (run examplePaths exampleChunk exampleStart)) 0)
       = Some (Some ''a'')
   \<and> map snd (modulesById (ld (run examplePaths exampleChunk exampleStart))) = [] @ 0 # []
   \<and> manualChunkModules (snd (assignManualChunks (ld (run examplePaths exampleChunk exampleStart))
         (\<lambda>i ids. if i = ''/m.js'' then Some ''a'' else None))) = [(''a'', [0, 0])]"
proof -
  let ?before = "ld (run examplePaths (butlast exampleChunk) exampleStart)"
  let ?after = "ld (run examplePaths exampleChunk exampleStart)"
  let ?fn = "\<lambda>i (ids :: string list). if i = ''/m.js'' then Some ''a'' else None"
  have f: "fst (addManualChunks_then (unresolvedManualChunks [(''a'', [''m''])]) [0] ?before) = Inr ()"
    by (simp add: eval_defs)
  have s: "snd (addManualChunks_then (unresolvedManualChunks [(''a'', [''m''])]) [0] ?before) = ?after"
    by (simp add: eval_defs)
  have 1: "addManualChunks_then (unresolvedManualChunks [(''a'', [''m''])]) [0] ?before = (Inr (), ?after)"
    using f s by (metis prod.collapse)
  have 2: "deref ?after 0 = Some (the (deref ?after 0))" by (simp add: eval_defs)
  have 3: "?fn (m_id (the (deref ?after 0))) (map fst (modulesById ?after)) = Some ''a''"
    by (simp add: eval_defs)
  have 4: "map snd (modulesById ?after) = [] @ 0 # []" by (simp add: eval_defs)
  have 5: "\<forall>r' \<in> set ([] @ []). \<forall>m'. deref ?after r' = Some m' \<longrightarrow>
           ?fn (m_id m') (map fst (modulesById ?after)) = None" by simp
  from assignManualChunks_after_addManualChunks [OF 1 2 3 4 5] f s 4
  show ?thesis by (simp add: eval_defs)
qed

subsection \<open>What each operation changes\<close>

lemma mutates_refl [simp]: "mutates st st"
  by (auto simp: mutates_def split: option.splits obj.splits)

lemma mutates_trans: "mutates a b \<Longrightarrow> mutates b c \<Longrightarrow> mutates a c"
  unfolding mutates_def
  apply (intro conjI allI)
     apply simp
    apply simp
   apply simp
  subgoal for r
    apply (elim conjE)
    apply (erule_tac x = r in allE)+
    apply (auto split: option.splits obj.splits)
    done
  done

lemma quiet_refl [simp]: "quiet st st"
  by (simp add: quiet_def)

lemma quiet_trans: "quiet a b \<Longrightarrow> quiet b c \<Longrightarrow> quiet a c"
  by (auto simp: quiet_def intro: mutates_trans)

lemma quiet_mutates: "quiet a b \<Longrightarrow> mutates a b"
  by (simp add: quiet_def)

lemma mutates_store:
  "deref st r = Some m \<Longrightarrow> m_id m' = m_id m \<Longrightarrow> mutates st (store r m' st)"
  by (auto simp: mutates_def deref_def store_def split: option.splits obj.splits)

lemma quiet_store:
  "deref st r = Some m \<Longrightarrow> m_id m' = m_id m \<Longrightarrow> quiet st (store r m' st)"
  by (simp add: quiet_def mutates_store) (simp add: store_def)

lemma quiet_warn [simp]: "quiet st (warn e st)"
  by (simp add: quiet_def warn_def mutates_def split: option.splits obj.splits)

lemma quiet_pushManualChunk [simp]: "quiet st (snd (pushManualChunk a r st))"
  by (simp add: quiet_def pushManualChunk_def mutates_def Let_def
        split: option.splits obj.splits property.splits)

lemma quiet_handleResolveId: "quiet st (snd (handleResolveId st U resolved s i))"
  by (simp add: handleResolveId_def split: option.splits)

lemma quiet_memoizeResolvedId: "quiet st (snd (memoizeResolvedId st U r s answer))"
proof (cases "deref st r")
  case None
  then show ?thesis by (simp add: memoizeResolvedId_def)
next
  case (Some m)
  let ?h = "handleResolveId st U (resolveId st U s (Some (m_id m)) answer) s (m_id m)"
  have q: "quiet st (snd ?h)" by (rule quiet_handleResolveId)
  show ?thesis
  proof (cases "fst ?h")
    case (Inl e)
    then show ?thesis using Some q
      by (auto simp: memoizeResolvedId_def split: prod.splits)
  next
    case (Inr resolved)
    have "\<exists>m1. deref (snd ?h) r = Some m1 \<and> m_id m1 = m_id m"
      using Some by (auto simp: handleResolveId_def split: option.splits)
    then obtain m1 where m1: "deref (snd ?h) r = Some m1" "m_id m1 = m_id m" by blast
    have "quiet (snd ?h) (store r (m\<lparr>resolvedIds := (resolvedIds m)(s \<mapsto> resolved)\<rparr>) (snd ?h))"
      by (rule quiet_store[OF m1(1)]) (simp add: m1(2))
    with q have "quiet st (store r (m\<lparr>resolvedIds := (resolvedIds m)(s \<mapsto> resolved)\<rparr>) (snd ?h))"
      by (rule quiet_trans)
    then show ?thesis using Some Inr
      by (auto simp: memoizeResolvedId_def split: prod.splits)
  qed
qed

lemma quiet_addModuleToManualChunk: "quiet st (snd (addModuleToManualChunk st a r))"
proof (cases "deref st r")
  case None
  then show ?thesis by (simp add: addModuleToManualChunk_def)
next
  case (Some m)
  have "quiet st (store r (m\<lparr>manualChunkAlias := Some a\<rparr>) st)"
    by (rule quiet_store[OF Some]) simp
  then have "quiet st (snd (pushManualChunk a r (store r (m\<lparr>manualChunkAlias := Some a\<rparr>) st)))"
    by (rule quiet_trans) simp
  then show ?thesis using Some
    by (simp add: addModuleToManualChunk_def split: option.splits)
qed

lemma quiet_assignManualChunks_loop: "quiet st (snd (assignManualChunks_loop g rs st))"
proof (induction rs arbitrary: st)
  case Nil
  then show ?case by simp
next
  case (Cons r rs)
  show ?case
  proof (cases "deref st r")
    case None
    then show ?thesis using Cons.IH by simp
  next
    case (Some m)
    show ?thesis
    proof (cases "g (m_id m) (map fst (modulesById st))")
      case None
      then show ?thesis using Some Cons.IH by simp
    next
      case (Some a)
      have q: "quiet st (snd (addModuleToManualChunk st a r))"
        by (rule quiet_addModuleToManualChunk)
      show ?thesis
      proof (cases "fst (addModuleToManualChunk st a r)")
        case (Inl e)
        then show ?thesis using \<open>deref st r = Some m\<close> Some q
          by (auto split: prod.splits)
      next
        case (Inr u)
        have "quiet st (snd (assignManualChunks_loop g rs (snd (addModuleToManualChunk st a r))))"
          using q Cons.IH by (rule quiet_trans)
        then show ?thesis using \<open>deref st r = Some m\<close> Some Inr
          by (auto split: prod.splits)
      qed
    qed
  qed
qed

lemma quiet_assignManualChunks: "quiet st (snd (assignManualChunks st g))"
  by (simp add: assignManualChunks_def quiet_assignManualChunks_loop)

lemma quiet_addManualChunks_then: "quiet st (snd (addManualChunks_then un rs st))"
proof (induction un rs st rule: addManualChunks_then.induct)
  case (1 unresolved st)
  then show ?case by simp
next
  case (2 r rs st)
  then show ?case by simp
next
  case (3 i a unresolved r rs st)
  have q: "quiet st (snd (addModuleToManualChunk st a r))"
    by (rule quiet_addModuleToManualChunk)
  show ?case
  proof (cases "fst (addModuleToManualChunk st a r)")
    case (Inl e)
    then show ?thesis using q by (auto split: prod.splits)
  next
    case (Inr u)
    then have "quiet (snd (addModuleToManualChunk st a r))
        (snd (addManualChunks_then unresolved rs (snd (addModuleToManualChunk st a r))))"
      using 3 by (metis prod.collapse)
    with q have "quiet st (snd (addManualChunks_then unresolved rs (snd (addModuleToManualChunk st a r))))"
      by (rule quiet_trans)
    then show ?thesis using Inr by (auto split: prod.splits)
  qed
qed

lemma deref_quiet:
  "mutates st st' \<Longrightarrow> deref st r = Some m \<Longrightarrow> \<exists>m'. deref st' r = Some m' \<and> m_id m' = m_id m"
  unfolding mutates_def deref_def
  apply (elim conjE)
  apply (erule_tac x = r in allE)
  apply (auto split: option.splits obj.splits)
  done

lemma quiet_copyExportsAll: "quiet st (copyExportsAll r d entries st)"
proof (induction entries arbitrary: st)
  case Nil
  then show ?case by simp
next
  case (Cons e entries)
  obtain n v where e: "e = (n, v)" by (cases e)
  show ?case
  proof (cases "deref st r")
    case None
    then show ?thesis using Cons.IH by (simp add: e)
  next
    case (Some m)
    show ?thesis
    proof (cases "n \<in> set (map fst (exportsAll m))")
      case True
      have "quiet st (warn (errNamespaceConflict n r d) st)" by simp
      then have "quiet st (copyExportsAll r d entries (warn (errNamespaceConflict n r d) st))"
        using Cons.IH by (rule quiet_trans)
      then show ?thesis using Some True by (simp add: e)
    next
      case False
      have "quiet st (store r (m\<lparr>exportsAll := AList.update n v (exportsAll m)\<rparr>) st)"
        by (rule quiet_store[OF Some]) simp
      then have "quiet st (copyExportsAll r d entries
          (store r (m\<lparr>exportsAll := AList.update n v (exportsAll m)\<rparr>) st))"
        using Cons.IH by (rule quiet_trans)
      then show ?thesis using Some False by (simp add: e)
    qed
  qed
qed

lemma quiet_linkExportAllSources: "quiet st (snd (linkExportAllSources r srcs st))"
proof (induction srcs arbitrary: st)
  case Nil
  then show ?case by simp
next
  case (Cons s srcs)
  show ?case
  proof (cases "deref st r")
    case None
    then show ?thesis by simp
  next
    case (Some m)
    note m = this
    show ?thesis
    proof (cases "resolvedIds m s")
      case None
      then show ?thesis using m by simp
    next
      case (Some resolved)
      note res = this
      show ?thesis
      proof (cases "map_of (modulesById st) (r_id resolved)")
        case None
        then show ?thesis using m res by simp
      next
        case (Some d)
        note d = this
        show ?thesis
        proof (cases "heap st d")
          case None
          then show ?thesis using m res d by simp
        next
          case (Some ob)
          show ?thesis
          proof (cases ob)
            case (External x)
            then show ?thesis using m res d Some Cons.IH by simp
          next
            case (Internal dm)
            have "quiet st (copyExportsAll r d (exportsAll dm) st)"
              by (rule quiet_copyExportsAll)
            then have "quiet st (snd (linkExportAllSources r srcs (copyExportsAll r d (exportsAll dm) st)))"
              using Cons.IH by (rule quiet_trans)
            then show ?thesis using m res d Some Internal by simp
          qed
        qed
      qed
    qed
  qed
qed

lemma quiet_fetchModule_link: "quiet st (snd (fetchModule_link st r))"
proof (cases "deref st r")
  case None
  then show ?thesis by (simp add: fetchModule_link_def)
next
  case (Some m)
  have "quiet st (store r (m\<lparr>exportsAll := linkOwnExports (m_id m) (exports m) (exportsAll m)\<rparr>) st)"
    by (rule quiet_store[OF Some]) simp
  then have "quiet st (snd (linkExportAllSources r (exportAllSources m)
       (store r (m\<lparr>exportsAll := linkOwnExports (m_id m) (exports m) (exportsAll m)\<rparr>) st)))"
    using quiet_linkExportAllSources by (rule quiet_trans)
  then show ?thesis using Some
    by (auto simp: fetchModule_link_def split: prod.splits sum.splits)
qed

lemma quiet_resolveDynamicImport:
  "resolveDynamicImport st U r specifier importer resolution = Some (res, st') \<Longrightarrow> quiet st st'"
proof (cases specifier)
  case (SpecNode n)
  assume "resolveDynamicImport st U r specifier importer resolution = Some (res, st')"
  then show ?thesis using SpecNode
    by (auto simp: resolveDynamicImport_def split: ResolveIdResult.splits)
next
  case (SpecString s)
  assume a: "resolveDynamicImport st U r specifier importer resolution = Some (res, st')"
  show ?thesis
  proof (cases "resolution = RNull")
    case True
    then show ?thesis using a SpecString
      by (auto simp: resolveDynamicImport_def intro!: quiet_store split: option.splits)
  next
    case False
    have "quiet st (snd (handleResolveId st U
             (normalizeResolveIdResult st U resolution (Some importer) s) s importer))"
      by (rule quiet_handleResolveId)
    then show ?thesis using a SpecString False
      by (auto simp: resolveDynamicImport_def split: prod.splits sum.splits)
  qed
qed

lemma transformModule_frame:
  assumes "deref st r = Some m" and "m_id m = i"
  shows "mutates st (snd (transformModule st i r m sd transformed))
       \<and> indexedEntryModules (snd (transformModule st i r m sd transformed)) = indexedEntryModules st
       \<and> nextEntryModuleIndex (snd (transformModule st i r m sd transformed)) = nextEntryModuleIndex st
       \<and> readFileCalls (snd (transformModule st i r m sd transformed)) = readFileCalls st
       \<and> transformCalls (snd (transformModule st i r m sd transformed)) = transformCalls st @ [i]"
proof -
  have d1: "deref (st\<lparr>transformCalls := transformCalls st @ [i]\<rparr>) r = Some m"
    using assms(1) by (simp add: deref_def)
  have mu: "mutates st (st\<lparr>transformCalls := transformCalls st @ [i]\<rparr>)"
    by (simp add: mutates_def split: option.splits obj.splits)
  have a: "\<And>m3. m_id m3 = m_id m \<Longrightarrow>
      mutates st (store r m3 (st\<lparr>transformCalls := transformCalls st @ [i]\<rparr>))"
    using mutates_trans[OF mu mutates_store[OF d1]] by simp
  have b: "\<And>m3. indexedEntryModules (store r m3 (st\<lparr>transformCalls := transformCalls st @ [i]\<rparr>))
              = indexedEntryModules st
         \<and> nextEntryModuleIndex (store r m3 (st\<lparr>transformCalls := transformCalls st @ [i]\<rparr>))
              = nextEntryModuleIndex st
         \<and> readFileCalls (store r m3 (st\<lparr>transformCalls := transformCalls st @ [i]\<rparr>))
              = readFileCalls st
         \<and> transformCalls (store r m3 (st\<lparr>transformCalls := transformCalls st @ [i]\<rparr>))
              = transformCalls st @ [i]"
    by (simp add: store_def)
  show ?thesis
    by (cases transformed; cases "s_moduleSideEffects sd"; cases "s_syntheticNamedExports sd")
       (simp_all add: transformModule_def Let_def setSource_def a b)
qed

lemma addModuleSource_loaded_frame:
  assumes "deref st r = Some m" and "m_id m = i"
  shows "mutates st (snd (addModuleSource_loaded st i r source transformed))
       \<and> indexedEntryModules (snd (addModuleSource_loaded st i r source transformed))
           = indexedEntryModules st
       \<and> nextEntryModuleIndex (snd (addModuleSource_loaded st i r source transformed))
           = nextEntryModuleIndex st
       \<and> readFileCalls (snd (addModuleSource_loaded st i r source transformed)) = readFileCalls st
       \<and> (transformCalls (snd (addModuleSource_loaded st i r source transformed))
             = transformCalls st
          \<or> transformCalls (snd (addModuleSource_loaded st i r source transformed))
             = transformCalls st @ [i])"
    (is "?P (addModuleSource_loaded st i r source transformed)")
proof -
  have same: "?P (e, st)" for e :: "rollup_error + unit" by simp
  have cached: "?P (Inr (), store r (setSource (c_body cm) m) (st\<lparr>emittedFiles := fs\<rparr>))" for cm fs
  proof -
    have d1: "deref (st\<lparr>emittedFiles := fs\<rparr>) r = Some m" using assms(1) by (simp add: deref_def)
    have mu: "mutates st (st\<lparr>emittedFiles := fs\<rparr>)"
      by (simp add: mutates_def split: option.splits obj.splits)
    have "mutates st (store r (setSource (c_body cm) m) (st\<lparr>emittedFiles := fs\<rparr>))"
      using mutates_trans[OF mu mutates_store[OF d1, of "setSource (c_body cm) m"]]
      by (simp add: setSource_def)
    then show ?thesis by (simp add: store_def)
  qed
  have tr: "?P (transformModule st i r m sd transformed)" for sd
    using transformModule_frame[OF assms, of sd transformed] by simp
  define sdo where "sdo = (case source of
              LoadString c \<Rightarrow>
                Some \<lparr>s_code = c, s_moduleSideEffects = None, s_syntheticNamedExports = None\<rparr>
            | LoadObject d \<Rightarrow> Some d
            | _ \<Rightarrow> None)"
  show ?thesis
  proof (cases sdo)
    case None
    then have "addModuleSource_loaded st i r source transformed = (Inl (errBadLoader i), st)"
      unfolding addModuleSource_loaded_def sdo_def by simp
    then show ?thesis using same by simp
  next
    case (Some sd)
    show ?thesis
    proof (cases "cachedModules st i")
      case None
      then have "addModuleSource_loaded st i r source transformed
                 = transformModule st i r m sd transformed"
        using Some assms(1) unfolding addModuleSource_loaded_def sdo_def by simp
      then show ?thesis using tr by simp
    next
      case (Some cm)
      show ?thesis
      proof (cases "\<not> customTransformCache cm \<and> originalCode cm = s_code sd")
        case True
        then have "addModuleSource_loaded st i r source transformed
                 = (Inr (), store r (setSource (c_body cm) m)
                            (st\<lparr>emittedFiles := emittedFiles st @
                                  (case transformFiles cm of Some fs \<Rightarrow> fs | None \<Rightarrow> [])\<rparr>))"
          using Some \<open>sdo = Some sd\<close> assms(1) unfolding addModuleSource_loaded_def sdo_def by simp
        then show ?thesis using cached by simp
      next
        case False
        then have "addModuleSource_loaded st i r source transformed
                 = transformModule st i r m sd transformed"
          using Some \<open>sdo = Some sd\<close> assms(1) unfolding addModuleSource_loaded_def sdo_def by auto
        then show ?thesis using tr by simp
      qed
    qed
  qed
qed

lemma addModuleSource_frame:
  assumes "deref st r = Some m" and "m_id m = i"
  shows "mutates st (snd (addModuleSource st U i importer r loaded file transformed))
       \<and> indexedEntryModules (snd (addModuleSource st U i importer r loaded file transformed))
           = indexedEntryModules st
       \<and> nextEntryModuleIndex (snd (addModuleSource st U i importer r loaded file transformed))
           = nextEntryModuleIndex st
       \<and> (readFileCalls (snd (addModuleSource st U i importer r loaded file transformed))
             = readFileCalls st
          \<or> readFileCalls (snd (addModuleSource st U i importer r loaded file transformed))
             = readFileCalls st @ [i])
       \<and> (transformCalls (snd (addModuleSource st U i importer r loaded file transformed))
             = transformCalls st
          \<or> transformCalls (snd (addModuleSource st U i importer r loaded file transformed))
             = transformCalls st @ [i])"
    (is "?P (addModuleSource st U i importer r loaded file transformed)")
proof -
  let ?read = "st\<lparr>readFileCalls := readFileCalls st @ [i]\<rparr>"
  have d1: "deref ?read r = Some m" using assms(1) by (simp add: deref_def)
  have mu: "mutates st ?read" by (simp add: mutates_def split: option.splits obj.splits)
  have direct: "?P (addModuleSource_loaded st i r source transformed)" for source
    using addModuleSource_loaded_frame[OF assms, of source transformed] by simp
  have viaFile: "?P (addModuleSource_loaded ?read i r source transformed)" for source
    using addModuleSource_loaded_frame[OF d1 assms(2), of source transformed]
      mutates_trans[OF mu] by simp
  have failed: "?P (e, st)" "?P (e, ?read)" for e :: "rollup_error + unit"
    using mu by simp_all
  show ?thesis
  proof (cases loaded)
    case (Throws message)
    then show ?thesis using failed(1) by (simp add: addModuleSource_def)
  next
    case (Returns v)
    show ?thesis
    proof (cases "v = LoadNull")
      case False
      then have "addModuleSource st U i importer r loaded file transformed
               = addModuleSource_loaded st i r v transformed"
        using Returns by (cases v) (simp_all add: addModuleSource_def)
      then show ?thesis using direct by simp
    next
      case True
      show ?thesis
      proof (cases "file")
        case (Throws message)
        then show ?thesis using failed(2) True Returns by (simp add: addModuleSource_def)
      next
        case (Returns c)
        then have "addModuleSource st U i importer r loaded file transformed
               = addModuleSource_loaded ?read i r (LoadString c) transformed"
          using True \<open>loaded = Returns v\<close> by (simp add: addModuleSource_def)
        then show ?thesis using viaFile by simp
      qed
    qed
  qed
qed

lemma quiet_fetches: "quiet st st1 \<Longrightarrow> fetches st1 f st' \<Longrightarrow> fetches st f st'"
  unfolding fetches_def by (meson quiet_trans)

lemma fetches_quiet: "quiet st st' \<Longrightarrow> fetches st None st'"
  unfolding fetches_def by auto

lemma fetches_fetchModule:
  assumes "fetchModule st i importer mse sne isEntry = (f, st')"
  shows "fetches st (Some f) st'"
proof (cases "getModule st i")
  case None
  let ?m = "new_Module i mse sne isEntry"
  have "m_id ?m = i" by (simp add: new_Module_def)
  then have "getModule st (m_id ?m) = None \<and> allocates st (Internal ?m) (m_id ?m) st'
      \<and> loadCalls st' = loadCalls st @ [m_id ?m] \<and> f = Loading (nextRef st)"
    using assms None by (auto simp: fetchModule_def allocates_def)
  then show ?thesis unfolding fetches_def
    by (intro exI[of _ st]) auto
next
  case (Some p)
  obtain r m where p: "p = (r, m)" by (cases p)
  have d: "deref st r = Some m" using Some p
    by (auto simp: getModule_def deref_def split: option.splits obj.splits)
  have "quiet st (store r (m\<lparr>isEntryPoint := isEntryPoint m \<or> isEntry\<rparr>) st)"
    by (rule quiet_store[OF d]) simp
  then show ?thesis using assms Some p unfolding fetches_def
    by (intro exI[of _ st']) (auto simp: fetchModule_def)
qed

lemma fetches_fetchResolvedDependency:
  assumes "fetchResolvedDependency st source importer resolved = (res, st')"
  shows "fetches st (fetched_of res) st'"
proof (cases "r_external resolved")
  case False
  then show ?thesis using assms fetches_fetchModule
    by (auto simp: fetchResolvedDependency_def split: prod.splits)
next
  case True
  show ?thesis
  proof (cases "map_of (modulesById st) (r_id resolved)")
    case (Some r)
    then have "st' = st" and "res = Inl (errInternalIdCannotBeExternal source importer) \<or> res = Inr (Existing r)"
      using assms True
      by (auto simp: fetchResolvedDependency_def split: option.splits obj.splits)
    then show ?thesis unfolding fetches_def
      by (intro exI[of _ st]) auto
  next
    case None
    let ?x = "new_ExternalModule (r_id resolved) (r_moduleSideEffects resolved)"
    have "allocates st (External ?x) (r_id resolved) st' \<and> loadCalls st' = loadCalls st
        \<and> (res = Inr (Existing (nextRef st)))"
      using assms True None
      by (auto simp: fetchResolvedDependency_def allocates_def update_conv' Let_def
               split: option.splits obj.splits)
    then show ?thesis using None unfolding fetches_def
      by (intro exI[of _ st]) auto
  qed
qed

lemma fetches_loadEntryModule:
  assumes "loadEntryModule st u isEntry importer res = (x, st')"
  shows "fetches st (fetched_of x) st'"
  using assms fetches_fetchModule
  by (auto simp: loadEntryModule_def fetches_quiet split: if_splits option.splits prod.splits)

lemma fetches_source:
  assumes "fetchAllDependencies_source st r source = Some (x, st')"
  shows "fetches st (fetched_of x) st'"
proof (cases "deref st r")
  case None
  then show ?thesis using assms
    by (auto simp: fetchAllDependencies_source_def fetches_quiet)
next
  case (Some m)
  then obtain resolved where res: "resolvedIds m source = Some resolved"
    and f: "fetchResolvedDependency
              (store r (m\<lparr>resolvedIds := (resolvedIds m)(source \<mapsto> resolved)\<rparr>) st)
              source (m_id m) resolved = (x, st')"
    using assms by (auto simp: fetchAllDependencies_source_def split: option.splits)
  have "quiet st (store r (m\<lparr>resolvedIds := (resolvedIds m)(source \<mapsto> resolved)\<rparr>) st)"
    by (rule quiet_store[OF Some]) simp
  then show ?thesis using fetches_fetchResolvedDependency[OF f] by (rule quiet_fetches)
qed

lemma fetches_source_resolved:
  assumes "fetchAllDependencies_source_resolved st U r source answer = (x, st')"
  shows "fetches st (fetched_of x) st'"
proof -
  obtain y st1 where h: "memoizeResolvedId st U r source answer = (y, st1)"
    by (cases "memoizeResolvedId st U r source answer")
  have q: "quiet st st1" using quiet_memoizeResolvedId[of st U r source answer] h by simp
  show ?thesis
  proof (cases y)
    case (Inl e)
    then show ?thesis using assms h q
      by (auto simp: fetchAllDependencies_source_resolved_def fetches_quiet)
  next
    case (Inr resolved)
    show ?thesis
    proof (cases "deref st1 r")
      case None
      then show ?thesis using assms h q Inr
        by (auto simp: fetchAllDependencies_source_resolved_def fetches_quiet)
    next
      case (Some m)
      then have "fetchResolvedDependency st1 source (m_id m) resolved = (x, st')"
        using assms h Inr by (simp add: fetchAllDependencies_source_resolved_def)
      from q fetches_fetchResolvedDependency[OF this] show ?thesis by (rule quiet_fetches)
    qed
  qed
qed

lemma fetches_dynamic:
  assumes "fetchAllDependencies_dynamic st U r resolvedId = (x, st')"
  shows "fetches st (fetched_opt_of x) st'"
proof (cases resolvedId)
  case (DynResolved resolved)
  show ?thesis
  proof (cases "deref st r")
    case None
    then show ?thesis using assms DynResolved
      by (auto simp: fetchAllDependencies_dynamic_def fetches_quiet)
  next
    case (Some m)
    obtain y st1 where h: "fetchResolvedDependency st (relativeId U (r_id resolved)) (m_id m) resolved = (y, st1)"
      by (cases "fetchResolvedDependency st (relativeId U (r_id resolved)) (m_id m) resolved")
    from fetches_fetchResolvedDependency[OF h] show ?thesis
      using assms DynResolved Some h
      by (cases y) (auto simp: fetchAllDependencies_dynamic_def)
  qed
next
  case (DynString s)
  then show ?thesis using assms by (auto simp: fetchAllDependencies_dynamic_def fetches_quiet)
next
  case DynNull
  then show ?thesis using assms by (auto simp: fetchAllDependencies_dynamic_def fetches_quiet)
qed

subsection \<open>The registry along an execution\<close>

lemma mutates_heap_Internal:
  "mutates st st' \<Longrightarrow> heap st' r = Some (Internal m') \<Longrightarrow>
   \<exists>m. heap st r = Some (Internal m) \<and> m_id m = m_id m'"
  unfolding mutates_def
  apply (elim conjE)
  apply (erule_tac x = r in allE)
  apply (auto split: option.splits obj.splits)
  done

lemma mutates_heap_None:
  "mutates st st' \<Longrightarrow> heap st r = None \<Longrightarrow> heap st' r = None"
  unfolding mutates_def
  apply (elim conjE)
  apply (erule_tac x = r in allE)
  apply (auto split: option.splits obj.splits)
  done

lemma mutates_heap_Internal':
  "mutates st st' \<Longrightarrow> heap st r = Some (Internal m) \<Longrightarrow>
   \<exists>m'. heap st' r = Some (Internal m') \<and> m_id m' = m_id m"
  unfolding mutates_def
  apply (elim conjE)
  apply (erule_tac x = r in allE)
  apply (auto split: option.splits obj.splits)
  done

lemma mutates_fields:
  "mutates st st' \<Longrightarrow> modulesById st' = modulesById st \<and> nextRef st' = nextRef st
     \<and> loadCalls st' = loadCalls st"
  by (simp add: mutates_def)

lemma registered_mutates:
  assumes "registered st" and "mutates st st'"
  shows "registered st'"
  unfolding registered_def
proof (intro conjI allI impI)
  fix r assume "nextRef st' \<le> r"
  then have "heap st r = None" using assms mutates_fields[OF assms(2)] by (simp add: registered_def)
  then show "heap st' r = None" by (rule mutates_heap_None[OF assms(2)])
next
  fix r m' assume "heap st' r = Some (Internal m')"
  from mutates_heap_Internal[OF assms(2) this] obtain m where
    m: "heap st r = Some (Internal m)" "m_id m = m_id m'" by blast
  from m(1) assms(1) have "map_of (modulesById st) (m_id m) = Some r"
    by (simp add: registered_def)
  then show "map_of (modulesById st') (m_id m') = Some r"
    using m(2) mutates_fields[OF assms(2)] by simp
qed

lemma getModule_Some:
  "getModule st i = Some (r, m) \<longleftrightarrow> map_of (modulesById st) i = Some r \<and> heap st r = Some (Internal m)"
  by (auto simp: getModule_def split: option.splits obj.splits)

lemma getModule_mutates:
  assumes "mutates st st'" and "getModule st i = Some (r, m)"
  shows "\<exists>m'. getModule st' i = Some (r, m') \<and> m_id m' = m_id m"
  using assms mutates_heap_Internal'[OF assms(1), of r m] mutates_fields[OF assms(1)]
  by (auto simp: getModule_Some)

lemma registered_allocates_Internal:
  assumes "registered st" and "getModule st (m_id m) = None"
    and "allocates st (Internal m) (m_id m) st'"
  shows "registered st'"
  unfolding registered_def
proof (intro conjI allI impI)
  fix r assume "nextRef st' \<le> r"
  then show "heap st' r = None" using assms(1,3) by (auto simp: registered_def allocates_def)
next
  fix r m1 assume h: "heap st' r = Some (Internal m1)"
  show "map_of (modulesById st') (m_id m1) = Some r"
  proof (cases "r = nextRef st")
    case True
    then show ?thesis using h assms(3) by (auto simp: allocates_def update_conv')
  next
    case False
    then have h1: "heap st r = Some (Internal m1)" using h assms(3) by (auto simp: allocates_def)
    then have reg: "map_of (modulesById st) (m_id m1) = Some r" using assms(1) by (simp add: registered_def)
    then have "getModule st (m_id m1) = Some (r, m1)" using h1 by (simp add: getModule_Some)
    then have "m_id m1 \<noteq> m_id m" using assms(2) by auto
    then show ?thesis using reg assms(3) by (auto simp: allocates_def update_conv')
  qed
qed

lemma registered_allocates_External:
  assumes "registered st" and "map_of (modulesById st) i = None"
    and "allocates st (External x) i st'"
  shows "registered st'"
  unfolding registered_def
proof (intro conjI allI impI)
  fix r assume "nextRef st' \<le> r"
  then show "heap st' r = None" using assms(1,3) by (auto simp: registered_def allocates_def)
next
  fix r m1 assume h: "heap st' r = Some (Internal m1)"
  then have "r \<noteq> nextRef st" using assms(3) by (auto simp: allocates_def)
  then have h1: "heap st r = Some (Internal m1)" using h assms(3) by (auto simp: allocates_def)
  then have reg: "map_of (modulesById st) (m_id m1) = Some r" using assms(1) by (simp add: registered_def)
  then have "m_id m1 \<noteq> i" using assms(2) by auto
  then show "map_of (modulesById st') (m_id m1) = Some r"
    using reg assms(3) by (auto simp: allocates_def update_conv')
qed

lemma getModule_allocates:
  assumes "registered st" and "allocates st ob i st'" and "getModule st j = Some (r, m)"
    and "j \<noteq> i"
  shows "getModule st' j = Some (r, m)"
proof -
  have "heap st r = Some (Internal m)" using assms(3) by (simp add: getModule_Some)
  then have "r \<noteq> nextRef st" using assms(1) by (auto simp: registered_def)
  then show ?thesis using assms by (auto simp: getModule_Some allocates_def update_conv')
qed

lemma deref_allocates:
  assumes "registered st" and "allocates st ob i st'" and "deref st r = Some m"
  shows "deref st' r = Some m"
proof -
  have "heap st r = Some (Internal m)" using assms(3)
    by (auto simp: deref_def split: option.splits obj.splits)
  then have "r \<noteq> nextRef st" using assms(1) by (auto simp: registered_def)
  then show ?thesis using assms by (auto simp: deref_def allocates_def)
qed

lemma registered_fetches:
  assumes "registered st" and "fetches st f st'"
  shows "registered st'"
proof -
  from assms(2) obtain st1 where q: "quiet st st1" and c:
    "(case f of
           Some (Loading r) \<Rightarrow>
             r = nextRef st1 \<and>
             (\<exists>m. getModule st1 (m_id m) = None \<and> allocates st1 (Internal m) (m_id m) st' \<and>
                  loadCalls st' = loadCalls st1 @ [m_id m])
         | _ \<Rightarrow>
             st' = st1 \<or>
             (\<exists>x i. map_of (modulesById st1) i = None \<and> allocates st1 (External x) i st' \<and>
                    loadCalls st' = loadCalls st1))"
    unfolding fetches_def by blast
  have r1: "registered st1" using assms(1) q by (auto intro: registered_mutates simp: quiet_def)
  show ?thesis
  proof (cases "\<exists>r. f = Some (Loading r)")
    case True
    then show ?thesis using c r1 by (auto intro: registered_allocates_Internal)
  next
    case False
    then have "st' = st1 \<or>
             (\<exists>x i. map_of (modulesById st1) i = None \<and> allocates st1 (External x) i st' \<and>
                    loadCalls st' = loadCalls st1)"
      using c by (cases f) (auto split: fetched.splits)
    then show ?thesis using r1 by (auto intro: registered_allocates_External)
  qed
qed


subsection \<open>Loading each module once\<close>

lemma quiet_calm: "quiet st st' \<Longrightarrow> calm st st'"
  by (simp add: quiet_def calm_def)

lemma deref_getModule:
  "registered st \<Longrightarrow> deref st r = Some m \<Longrightarrow> getModule st (m_id m) = Some (r, m)"
  by (auto simp: registered_def deref_def getModule_Some split: option.splits obj.splits)

lemma getModule_deref: "getModule st i = Some (r, m) \<Longrightarrow> deref st r = Some m"
  by (auto simp: deref_def getModule_Some)

lemma loads_inv_calm:
  assumes "loads_inv c" and "calm (ld c) (ld c')" and "suspendedLoads c' = suspendedLoads c"
  shows "loads_inv c'"
proof -
  have mu: "mutates (ld c) (ld c')" using assms(2) by (simp add: calm_def)
  have flds: "loadCalls (ld c') = loadCalls (ld c)" "readFileCalls (ld c') = readFileCalls (ld c)"
    "transformCalls (ld c') = transformCalls (ld c)"
    using assms(2) mutates_fields[OF mu] by (simp_all add: calm_def)
  have reg: "registered (ld c')" using assms(1) mu by (auto simp: loads_inv_def intro: registered_mutates)
  have gm: "\<And>i. getModule (ld c) i \<noteq> None \<Longrightarrow> getModule (ld c') i \<noteq> None"
    using getModule_mutates[OF mu] by fastforce
  have dr: "\<And>r m. deref (ld c) r = Some m \<Longrightarrow> \<exists>m'. deref (ld c') r = Some m' \<and> m_id m' = m_id m"
    using deref_quiet[OF mu] by blast
  show ?thesis
    unfolding loads_inv_def flds assms(3)
  proof (intro conjI ballI)
    show "registered (ld c')" by (rule reg)
    show "distinct (loadCalls (ld c))" "distinct (readFileCalls (ld c))"
      "distinct (transformCalls (ld c))" "distinct (suspendedLoads c)"
      using assms(1) by (simp_all add: loads_inv_def)
  next
    fix i assume "i \<in> set (loadCalls (ld c)) \<union> set (readFileCalls (ld c)) \<union> set (transformCalls (ld c))"
    then have "getModule (ld c) i \<noteq> None" using assms(1) unfolding loads_inv_def by blast
    then show "getModule (ld c') i \<noteq> None" by (rule gm)
  next
    fix r assume "r \<in> set (suspendedLoads c)"
    then obtain m where "deref (ld c) r = Some m" "m_id m \<notin> set (readFileCalls (ld c))"
      "m_id m \<notin> set (transformCalls (ld c))"
      using assms(1) unfolding loads_inv_def by blast
    then show "\<exists>m. deref (ld c') r = Some m \<and>
        m_id m \<notin> set (readFileCalls (ld c)) \<and> m_id m \<notin> set (transformCalls (ld c))"
      using dr by fastforce
  qed
qed

lemma loads_inv_allocates_External:
  assumes "loads_inv c" and "map_of (modulesById (ld c)) i = None"
    and "allocates (ld c) (External x) i (ld c')" and "loadCalls (ld c') = loadCalls (ld c)"
    and "suspendedLoads c' = suspendedLoads c"
  shows "loads_inv c'"
proof -
  have reg0: "registered (ld c)" using assms(1) by (simp add: loads_inv_def)
  have flds: "readFileCalls (ld c') = readFileCalls (ld c)"
    "transformCalls (ld c') = transformCalls (ld c)"
    using assms(3) by (simp_all add: allocates_def)
  have gm: "\<And>j. getModule (ld c) j \<noteq> None \<Longrightarrow> getModule (ld c') j \<noteq> None"
  proof -
    fix j assume "getModule (ld c) j \<noteq> None"
    then obtain r m where g: "getModule (ld c) j = Some (r, m)" by (cases "getModule (ld c) j") auto
    then have "j \<noteq> i" using assms(2) by (auto simp: getModule_Some)
    from getModule_allocates[OF reg0 assms(3) g this] show "getModule (ld c') j \<noteq> None" by simp
  qed
  show ?thesis
    unfolding loads_inv_def flds assms(4,5)
  proof (intro conjI ballI)
    show "registered (ld c')" using registered_allocates_External[OF reg0 assms(2,3)] .
    show "distinct (loadCalls (ld c))" "distinct (readFileCalls (ld c))"
      "distinct (transformCalls (ld c))" "distinct (suspendedLoads c)"
      using assms(1) by (simp_all add: loads_inv_def)
  next
    fix j assume "j \<in> set (loadCalls (ld c)) \<union> set (readFileCalls (ld c)) \<union> set (transformCalls (ld c))"
    then have "getModule (ld c) j \<noteq> None" using assms(1) unfolding loads_inv_def by blast
    then show "getModule (ld c') j \<noteq> None" by (rule gm)
  next
    fix r assume "r \<in> set (suspendedLoads c)"
    then obtain m where "deref (ld c) r = Some m" "m_id m \<notin> set (readFileCalls (ld c))"
      "m_id m \<notin> set (transformCalls (ld c))"
      using assms(1) unfolding loads_inv_def by blast
    then show "\<exists>m. deref (ld c') r = Some m \<and>
        m_id m \<notin> set (readFileCalls (ld c)) \<and> m_id m \<notin> set (transformCalls (ld c))"
      using deref_allocates[OF reg0 assms(3)] by fastforce
  qed
qed

lemma loads_inv_allocates_Internal:
  assumes "loads_inv c" and "getModule (ld c) (m_id m) = None"
    and "allocates (ld c) (Internal m) (m_id m) (ld c')"
    and "loadCalls (ld c') = loadCalls (ld c) @ [m_id m]"
    and "suspendedLoads c' = suspendedLoads c @ [nextRef (ld c)]"
  shows "loads_inv c'"
proof -
  have reg0: "registered (ld c)" using assms(1) by (simp add: loads_inv_def)
  have flds: "readFileCalls (ld c') = readFileCalls (ld c)"
    "transformCalls (ld c') = transformCalls (ld c)"
    using assms(3) by (simp_all add: allocates_def)
  have known: "\<And>j. j \<in> set (loadCalls (ld c)) \<union> set (readFileCalls (ld c)) \<union> set (transformCalls (ld c))
      \<Longrightarrow> getModule (ld c) j \<noteq> None"
    using assms(1) unfolding loads_inv_def by blast
  have fresh: "m_id m \<notin> set (loadCalls (ld c))" "m_id m \<notin> set (readFileCalls (ld c))"
    "m_id m \<notin> set (transformCalls (ld c))"
    using known assms(2) by blast+
  have new: "getModule (ld c') (m_id m) = Some (nextRef (ld c), m)"
    using assms(3) by (simp add: getModule_Some allocates_def update_conv')
  have gm: "\<And>j. getModule (ld c) j \<noteq> None \<Longrightarrow> getModule (ld c') j \<noteq> None"
  proof -
    fix j assume "getModule (ld c) j \<noteq> None"
    then obtain r m1 where g: "getModule (ld c) j = Some (r, m1)" by (cases "getModule (ld c) j") auto
    then have "j \<noteq> m_id m" using assms(2) by auto
    from getModule_allocates[OF reg0 assms(3) g this] show "getModule (ld c') j \<noteq> None" by simp
  qed
  have susp: "\<And>r. r \<in> set (suspendedLoads c) \<Longrightarrow> \<exists>m1. deref (ld c) r = Some m1 \<and>
        m_id m1 \<notin> set (readFileCalls (ld c)) \<and> m_id m1 \<notin> set (transformCalls (ld c))"
    using assms(1) unfolding loads_inv_def by blast
  have nf: "heap (ld c) (nextRef (ld c)) = None" using reg0 by (simp add: registered_def)
  have notin: "nextRef (ld c) \<notin> set (suspendedLoads c)"
  proof
    assume "nextRef (ld c) \<in> set (suspendedLoads c)"
    from susp[OF this] nf show False by (auto simp: deref_def)
  qed
  show ?thesis
    unfolding loads_inv_def flds assms(4,5)
  proof (intro conjI ballI)
    show "registered (ld c')" using registered_allocates_Internal[OF reg0 assms(2,3)] .
    show "distinct (loadCalls (ld c) @ [m_id m])" using assms(1) fresh by (simp add: loads_inv_def)
    show "distinct (readFileCalls (ld c))"
      "distinct (transformCalls (ld c))"
      using assms(1) by (simp_all add: loads_inv_def)
    show "distinct (suspendedLoads c @ [nextRef (ld c)])"
      using assms(1) notin by (simp add: loads_inv_def)
  next
    fix j assume "j \<in> set (loadCalls (ld c) @ [m_id m]) \<union> set (readFileCalls (ld c)) \<union> set (transformCalls (ld c))"
    then have "j = m_id m \<or> getModule (ld c) j \<noteq> None" using known by auto
    then show "getModule (ld c') j \<noteq> None" using new gm by auto
  next
    fix r assume "r \<in> set (suspendedLoads c @ [nextRef (ld c)])"
    then have "r \<in> set (suspendedLoads c) \<or> r = nextRef (ld c)" by auto
    then show "\<exists>m. deref (ld c') r = Some m \<and>
        m_id m \<notin> set (readFileCalls (ld c)) \<and> m_id m \<notin> set (transformCalls (ld c))"
    proof
      assume "r \<in> set (suspendedLoads c)"
      from susp[OF this] show ?thesis using deref_allocates[OF reg0 assms(3)] by fastforce
    next
      assume "r = nextRef (ld c)"
      then have "deref (ld c') r = Some m" using new by (auto dest: getModule_deref)
      then show ?thesis using fresh by blast
    qed
  qed
qed

lemma calm_refl [simp]: "calm st st"
  by (simp add: calm_def)

lemma calm_trans: "calm a b \<Longrightarrow> calm b c \<Longrightarrow> calm a c"
  by (auto simp: calm_def intro: mutates_trans)

lemma m_id_markEntryModule [simp]: "m_id (markEntryModule u b m) = m_id m"
  by (simp add: markEntryModule_def Let_def split: option.splits)

lemma calm_store:
  "deref st r = Some m \<Longrightarrow> m_id m' = m_id m \<Longrightarrow> calm st (store r m' st)"
  using quiet_store by (auto intro: quiet_calm)

lemma calm_indexed [simp]: "calm st (st\<lparr>indexedEntryModules := xs\<rparr>)"
  by (simp add: calm_def mutates_def split: option.splits obj.splits)

lemma calm_addEntryModules_loop:
  "calm st (snd (addEntryModules_loop b k us rs st))"
proof (induction b k us rs st rule: addEntryModules_loop.induct)
  case (1 isUserDefined moduleIndex us st)
  then show ?case by simp
next
  case (2 isUserDefined moduleIndex r rs st)
  then show ?case by simp
next
  case (3 isUserDefined moduleIndex u us r rs st)
  show ?case
  proof (cases "deref st r")
    case None
    then show ?thesis by simp
  next
    case (Some m)
    let ?marked = "store r (markEntryModule u isUserDefined m) st"
    let ?indexed = "?marked\<lparr>indexedEntryModules :=
                       indexEntryModule ?marked (m_id m) r moduleIndex (indexedEntryModules ?marked)\<rparr>"
    have "calm st ?marked" by (rule calm_store[OF Some]) simp
    then have "calm st ?indexed" by (rule calm_trans) simp
    moreover have "calm ?indexed (snd (addEntryModules_loop isUserDefined (Suc moduleIndex) us rs ?indexed))"
      using 3[OF Some refl] by simp
    ultimately show ?thesis using Some by (simp add: Let_def calm_trans)
  qed
qed

lemma calm_addEntryModules_then:
  "calm st (snd (addEntryModules_then st k us b rs))"
proof -
  obtain x st1 where h: "addEntryModules_loop b k us rs st = (x, st1)"
    by (cases "addEntryModules_loop b k us rs st")
  have "calm st st1" using calm_addEntryModules_loop[of st b k us rs] h by simp
  then have "calm st (st1\<lparr>indexedEntryModules := sortIndexed (indexedEntryModules st1)\<rparr>)"
    by (rule calm_trans) simp
  then show ?thesis using h \<open>calm st st1\<close>
    by (cases x) (simp_all add: addEntryModules_then_def)
qed

lemma calm_addEntryModules_reserve: "calm st (snd (addEntryModules_reserve st us))"
  by (simp add: addEntryModules_reserve_def calm_def mutates_def split: option.splits obj.splits)

lemma loads_inv_fetches:
  assumes "loads_inv c" and "fetches (ld c) f st'"
  shows "loads_inv (started f st' c)"
proof -
  from assms(2) obtain st1 where q: "quiet (ld c) st1" and cs:
    "(case f of
           Some (Loading r) \<Rightarrow>
             r = nextRef st1 \<and>
             (\<exists>m. getModule st1 (m_id m) = None \<and> allocates st1 (Internal m) (m_id m) st' \<and>
                  loadCalls st' = loadCalls st1 @ [m_id m])
         | _ \<Rightarrow>
             st' = st1 \<or>
             (\<exists>x i. map_of (modulesById st1) i = None \<and> allocates st1 (External x) i st' \<and>
                    loadCalls st' = loadCalls st1))"
    unfolding fetches_def by blast
  let ?c1 = "c\<lparr>ld := st1\<rparr>"
  have i1: "loads_inv ?c1"
    by (rule loads_inv_calm[OF assms(1)]) (simp_all add: quiet_calm[OF q])
  show ?thesis
  proof (cases "\<exists>r. f = Some (Loading r)")
    case True
    then obtain r where f: "f = Some (Loading r)" by blast
    with cs obtain m where r: "r = nextRef st1" and m: "getModule st1 (m_id m) = None"
      "allocates st1 (Internal m) (m_id m) st'" "loadCalls st' = loadCalls st1 @ [m_id m]"
      by auto
    show ?thesis
      by (rule loads_inv_allocates_Internal[OF i1, of m])
         (simp_all add: m started_def f r)
  next
    case False
    then have nl: "(case f of Some (Loading r) \<Rightarrow> [r] | _ \<Rightarrow> []) = []"
      by (cases f) (auto split: fetched.splits)
    from False cs have "st' = st1 \<or>
             (\<exists>x i. map_of (modulesById st1) i = None \<and> allocates st1 (External x) i st' \<and>
                    loadCalls st' = loadCalls st1)"
      by (cases f) (auto split: fetched.splits)
    then show ?thesis
    proof
      assume "st' = st1"
      then have "started f st' c = ?c1" by (simp add: started_def nl)
      then show ?thesis using i1 by simp
    next
      assume "\<exists>x i. map_of (modulesById st1) i = None \<and> allocates st1 (External x) i st' \<and>
                    loadCalls st' = loadCalls st1"
      then obtain x i where x: "map_of (modulesById st1) i = None" "allocates st1 (External x) i st'"
        "loadCalls st' = loadCalls st1" by blast
      show ?thesis
        by (rule loads_inv_allocates_External[OF i1, of i x])
           (simp_all add: x started_def nl)
    qed
  qed
qed

lemma loads_inv_addModuleSource:
  assumes "loads_inv c" and "r \<in> set (suspendedLoads c)" and "deref (ld c) r = Some m"
  shows "loads_inv (c\<lparr>ld := snd (addModuleSource (ld c) U (m_id m) importer r loaded file transformed),
                       suspendedLoads := removeAll r (suspendedLoads c)\<rparr>)"
    (is "loads_inv ?c'")
proof -
  let ?after = "snd (addModuleSource (ld c) U (m_id m) importer r loaded file transformed)"
  have reg0: "registered (ld c)" using assms(1) by (simp add: loads_inv_def)
  from addModuleSource_frame[OF assms(3) refl, of U importer loaded "file" transformed]
  have mu: "mutates (ld c) ?after"
    and rd: "readFileCalls ?after = readFileCalls (ld c) \<or>
             readFileCalls ?after = readFileCalls (ld c) @ [m_id m]"
    and tr: "transformCalls ?after = transformCalls (ld c) \<or>
             transformCalls ?after = transformCalls (ld c) @ [m_id m]"
    by blast+
  have lc: "loadCalls ?after = loadCalls (ld c)" using mutates_fields[OF mu] by simp
  have susp: "\<And>r'. r' \<in> set (suspendedLoads c) \<Longrightarrow> \<exists>m1. deref (ld c) r' = Some m1 \<and>
        m_id m1 \<notin> set (readFileCalls (ld c)) \<and> m_id m1 \<notin> set (transformCalls (ld c))"
    using assms(1) unfolding loads_inv_def by blast
  from susp[OF assms(2)] assms(3) have fresh: "m_id m \<notin> set (readFileCalls (ld c))"
    "m_id m \<notin> set (transformCalls (ld c))" by auto
  have gmr: "getModule (ld c) (m_id m) = Some (r, m)" by (rule deref_getModule[OF reg0 assms(3)])
  have gm: "\<And>i. getModule (ld c) i \<noteq> None \<Longrightarrow> getModule ?after i \<noteq> None"
    using getModule_mutates[OF mu] by fastforce
  have known: "\<And>j. j \<in> set (loadCalls (ld c)) \<union> set (readFileCalls (ld c)) \<union> set (transformCalls (ld c))
      \<Longrightarrow> getModule (ld c) j \<noteq> None"
    using assms(1) unfolding loads_inv_def by blast
  have sets: "set (readFileCalls ?after) \<subseteq> insert (m_id m) (set (readFileCalls (ld c)))"
    "set (transformCalls ?after) \<subseteq> insert (m_id m) (set (transformCalls (ld c)))"
    using rd tr by auto
  show ?thesis
    unfolding loads_inv_def
  proof (intro conjI ballI)
    show "registered (ld ?c')" using registered_mutates[OF reg0 mu] by simp
    show "distinct (loadCalls (ld ?c'))" using assms(1) lc by (simp add: loads_inv_def)
    show "distinct (readFileCalls (ld ?c'))" using assms(1) rd fresh by (auto simp: loads_inv_def)
    show "distinct (transformCalls (ld ?c'))" using assms(1) tr fresh by (auto simp: loads_inv_def)
    show "distinct (suspendedLoads ?c')" using assms(1) by (simp add: loads_inv_def distinct_removeAll)
  next
    fix j assume "j \<in> set (loadCalls (ld ?c')) \<union> set (readFileCalls (ld ?c')) \<union> set (transformCalls (ld ?c'))"
    then have "j = m_id m \<or> j \<in> set (loadCalls (ld c)) \<union> set (readFileCalls (ld c)) \<union> set (transformCalls (ld c))"
      using sets lc by auto
    then have "getModule (ld c) j \<noteq> None" using known gmr by auto
    then show "getModule (ld ?c') j \<noteq> None" using gm by simp
  next
    fix r' assume "r' \<in> set (suspendedLoads ?c')"
    then have r': "r' \<in> set (suspendedLoads c)" "r' \<noteq> r" by auto
    from susp[OF r'(1)] obtain m1 where m1: "deref (ld c) r' = Some m1"
      "m_id m1 \<notin> set (readFileCalls (ld c))" "m_id m1 \<notin> set (transformCalls (ld c))" by blast
    have "getModule (ld c) (m_id m1) = Some (r', m1)" by (rule deref_getModule[OF reg0 m1(1)])
    then have ne: "m_id m1 \<noteq> m_id m" using gmr r'(2) by auto
    from deref_quiet[OF mu m1(1)] obtain m2 where m2: "deref ?after r' = Some m2" "m_id m2 = m_id m1"
      by blast
    have "m_id m2 \<notin> set (readFileCalls ?after)" "m_id m2 \<notin> set (transformCalls ?after)"
      using sets m1(2,3) ne m2(2) by auto
    then show "\<exists>m. deref (ld ?c') r' = Some m \<and>
        m_id m \<notin> set (readFileCalls (ld ?c')) \<and> m_id m \<notin> set (transformCalls (ld ?c'))"
      using m2(1) by simp
  qed
qed

lemma loads_inv_batches [simp]: "loads_inv (c\<lparr>batches := bs\<rparr>) = loads_inv c"
  by (simp add: loads_inv_def)

lemma loads_inv_step:
  assumes "loads_inv c"
  shows "loads_inv (step U ev c)"
proof (cases ev)
  case (LoadEntryModule u isEntry importer res)
  obtain x st' where h: "loadEntryModule (ld c) u isEntry importer res = (x, st')"
    by (cases "loadEntryModule (ld c) u isEntry importer res")
  from loads_inv_fetches[OF assms fetches_loadEntryModule[OF h]]
  show ?thesis using LoadEntryModule h by (simp add: step_def)
next
  case (AddModuleSource r importer loaded fl transformed)
  show ?thesis
  proof (cases "r \<in> set (suspendedLoads c)")
    case False
    then show ?thesis using AddModuleSource assms by (simp add: step_def)
  next
    case True
    show ?thesis
    proof (cases "deref (ld c) r")
      case None
      then show ?thesis using AddModuleSource assms True by (simp add: step_def)
    next
      case (Some m)
      from loads_inv_addModuleSource[OF assms True Some]
      show ?thesis using AddModuleSource True Some by (simp add: step_def)
    qed
  qed
next
  case (FetchSource r source)
  show ?thesis
  proof (cases "fetchAllDependencies_source (ld c) r source")
    case None
    then show ?thesis using FetchSource assms by (simp add: step_def)
  next
    case (Some p)
    obtain x st' where p: "p = (x, st')" by (cases p)
    from loads_inv_fetches[OF assms fetches_source[OF Some[unfolded p]]]
    show ?thesis using FetchSource Some p by (simp add: step_def)
  qed
next
  case (FetchSourceResolved r source answer)
  obtain x st' where h: "fetchAllDependencies_source_resolved (ld c) U r source answer = (x, st')"
    by (cases "fetchAllDependencies_source_resolved (ld c) U r source answer")
  from loads_inv_fetches[OF assms fetches_source_resolved[OF h]]
  show ?thesis using FetchSourceResolved h by (simp add: step_def)
next
  case (ResolveDynamicImport r specifier resolution)
  show ?thesis
  proof (cases "deref (ld c) r")
    case None
    then show ?thesis using ResolveDynamicImport assms by (simp add: step_def)
  next
    case (Some m)
    show ?thesis
    proof (cases "resolveDynamicImport (ld c) U r specifier (m_id m) resolution")
      case None
      then show ?thesis using ResolveDynamicImport assms Some by (simp add: step_def)
    next
      case (Some p)
      obtain x st' where p: "p = (x, st')" by (cases p)
      have "calm (ld c) st'" using quiet_resolveDynamicImport[OF Some[unfolded p]] by (rule quiet_calm)
      then have "loads_inv (c\<lparr>ld := st'\<rparr>)" by (intro loads_inv_calm[OF assms]) simp_all
      then show ?thesis using ResolveDynamicImport Some p \<open>deref (ld c) r = Some m\<close>
        by (simp add: step_def)
    qed
  qed
next
  case (ResolveDynamicImportResolved r s answer)
  have "calm (ld c) (snd (memoizeResolvedId (ld c) U r s answer))"
    using quiet_memoizeResolvedId by (rule quiet_calm)
  then have "loads_inv (c\<lparr>ld := snd (memoizeResolvedId (ld c) U r s answer)\<rparr>)"
    by (intro loads_inv_calm[OF assms]) simp_all
  then show ?thesis using ResolveDynamicImportResolved by (simp add: step_def)
next
  case (FetchDynamic r resolvedId)
  obtain x st' where h: "fetchAllDependencies_dynamic (ld c) U r resolvedId = (x, st')"
    by (cases "fetchAllDependencies_dynamic (ld c) U r resolvedId")
  from loads_inv_fetches[OF assms fetches_dynamic[OF h]]
  show ?thesis using FetchDynamic h by (simp add: step_def)
next
  case (Link r)
  have "calm (ld c) (snd (fetchModule_link (ld c) r))"
    using quiet_fetchModule_link by (rule quiet_calm)
  then have "loads_inv (c\<lparr>ld := snd (fetchModule_link (ld c) r)\<rparr>)"
    by (intro loads_inv_calm[OF assms]) simp_all
  then show ?thesis using Link by (simp add: step_def)
next
  case (AddEntryModules us b)
  have "calm (ld c) (snd (addEntryModules_reserve (ld c) us))"
    by (rule calm_addEntryModules_reserve)
  then have "loads_inv (c\<lparr>ld := snd (addEntryModules_reserve (ld c) us)\<rparr>)"
    by (intro loads_inv_calm[OF assms]) simp_all
  then show ?thesis using AddEntryModules by (auto simp: step_def split: prod.splits)
next
  case (LoadEntry n k res)
  show ?thesis
  proof (cases "n < length (batches c) \<and> k < length (bt_entries (batches c ! n)) \<and>
              k < length (bt_loads (batches c ! n)) \<and>
              bt_loads (batches c ! n) ! k = EntryResolving")
    case False
    then show ?thesis using LoadEntry assms by (auto simp: step_def)
  next
    case True
    let ?u = "bt_entries (batches c ! n) ! k"
    obtain x st' where h: "loadEntryModule (ld c) (u_id ?u) True (u_importer ?u) res = (x, st')"
      by (cases "loadEntryModule (ld c) (u_id ?u) True (u_importer ?u) res")
    from loads_inv_fetches[OF assms fetches_loadEntryModule[OF h]]
    show ?thesis using LoadEntry True h by (simp add: step_def)
  qed
next
  case (AddEntryModulesThen n)
  show ?thesis
  proof (cases "n < length (batches c) \<and> \<not> bt_done (batches c ! n)")
    case False
    then show ?thesis using AddEntryModulesThen assms by (auto simp: step_def)
  next
    case True
    show ?thesis
    proof (cases "loadedEntryModules (batches c ! n)")
      case None
      then show ?thesis using AddEntryModulesThen assms True by (simp add: step_def)
    next
      case (Some rs)
      let ?b = "batches c ! n"
      have "calm (ld c) (snd (addEntryModules_then (ld c) (bt_first ?b) (bt_entries ?b)
                               (bt_isUserDefined ?b) rs))"
        by (rule calm_addEntryModules_then)
      then have "loads_inv (c\<lparr>ld := snd (addEntryModules_then (ld c) (bt_first ?b) (bt_entries ?b)
                               (bt_isUserDefined ?b) rs)\<rparr>)"
        by (intro loads_inv_calm[OF assms]) simp_all
      then show ?thesis using AddEntryModulesThen True Some by (simp add: step_def)
    qed
  qed
next
  case (AddManualChunksThen un rs)
  have "calm (ld c) (snd (addManualChunks_then un rs (ld c)))"
    using quiet_addManualChunks_then by (rule quiet_calm)
  then have "loads_inv (c\<lparr>ld := snd (addManualChunks_then un rs (ld c))\<rparr>)"
    by (intro loads_inv_calm[OF assms]) simp_all
  then show ?thesis using AddManualChunksThen by (simp add: step_def)
next
  case (AssignManualChunks g)
  have "calm (ld c) (snd (assignManualChunks (ld c) g))"
    using quiet_assignManualChunks by (rule quiet_calm)
  then have "loads_inv (c\<lparr>ld := snd (assignManualChunks (ld c) g)\<rparr>)"
    by (intro loads_inv_calm[OF assms]) simp_all
  then show ?thesis using AssignManualChunks by (simp add: step_def)
qed

lemma loads_inv_run: "loads_inv c \<Longrightarrow> loads_inv (run U evs c)"
  by (induction evs arbitrary: c) (simp_all add: loads_inv_step)

lemma loads_inv_start: "loads_inv (start graph external moduleSideEffects pureExternalModules)"
  by (simp add: loads_inv_def start_def new_ModuleLoader_def registered_def)

text \<open>
  Claim C1. When the registry holds an internal module under the id, \<^verbatim>\<open>fetchModule\<close>
  returns that module, and the only change it makes is to set the module's
  \<^verbatim>\<open>isEntryPoint\<close> to its disjunction with \<^verbatim>\<open>isEntry\<close>: no call of the load hook, the file
  system or the transformer is made. And in every execution of a new loader, in whatever
  order the scheduler runs the suspended methods, the load hook, the file system and the
  transformer are each called at most once for every id.
\<close>

theorem fetchModule_loads_once:
  "(getModule st i = Some (r, m) \<longrightarrow>
      fetchModule st i importer moduleSideEffects syntheticNamedExports isEntry =
        (Existing r,
         st\<lparr>heap := (heap st)(r \<mapsto> Internal (m\<lparr>isEntryPoint := isEntryPoint m \<or> isEntry\<rparr>))\<rparr>))
   \<and> distinct (loadCalls (ld (run U evs (start graph external policy pureExternalModules))))
   \<and> distinct (readFileCalls (ld (run U evs (start graph external policy pureExternalModules))))
   \<and> distinct (transformCalls (ld (run U evs (start graph external policy pureExternalModules))))"
proof -
  have "loads_inv (run U evs (start graph external policy pureExternalModules))"
    by (rule loads_inv_run[OF loads_inv_start])
  then show ?thesis by (simp add: loads_inv_def fetchModule_def store_def)
qed

theorem fetchModule_loads_once_witness:
  "fst (fetchModule (ld (run examplePaths exampleLoad exampleStart)) ''/x.js'' (Some ''/y.js'')
          True False True) = Existing 1
   \<and> loadCalls (snd (fetchModule (ld (run examplePaths exampleLoad exampleStart)) ''/x.js''
          (Some ''/y.js'') True False True)) = [''/y.js'', ''/x.js'']
   \<and> loadCalls (ld (run examplePaths exampleLoad exampleStart)) = [''/y.js'', ''/x.js'']
   \<and> readFileCalls (ld (run examplePaths exampleLoad exampleStart)) = [''/x.js'']
   \<and> transformCalls (ld (run examplePaths exampleLoad exampleStart)) = [''/y.js'', ''/x.js'']"
proof -
  have g: "getModule (ld (run examplePaths exampleLoad exampleStart)) ''/x.js''
         = Some (1, the (deref (ld (run examplePaths exampleLoad exampleStart)) 1))"
    by (simp add: eval_defs)
  show ?thesis
    using fetchModule_loads_once
      [where st = "ld (run examplePaths exampleLoad exampleStart)" and i = "''/x.js''" and r = 1
         and m = "the (deref (ld (run examplePaths exampleLoad exampleStart)) 1)"
         and importer = "Some ''/y.js''" and moduleSideEffects = True
         and syntheticNamedExports = False and isEntry = True
         and U = examplePaths and evs = exampleLoad and graph = "\<lambda>_. None"
         and external = "OptBool False" and policy = "MseBool True"
         and pureExternalModules = "OptBool False"] g
    by (simp add: eval_defs)
qed

subsection \<open>The entry list\<close>

lemma set_insertIndexed [simp]: "set (insertIndexed a xs) = insert a (set xs)"
  by (induction xs) auto

lemma set_foldr_insertIndexed: "set (foldr insertIndexed xs []) = set xs"
  by (induction xs) simp_all

lemma set_sortIndexed [simp]: "set (sortIndexed xs) = set xs"
  by (simp add: sortIndexed_def set_foldr_insertIndexed)

lemma distinct_map_insertIndexed [simp]:
  "distinct (map f (insertIndexed a xs)) = distinct (map f (a # xs))"
  by (induction xs) auto

lemma distinct_map_sortIndexed [simp]: "distinct (map f (sortIndexed xs)) = distinct (map f xs)"
  unfolding sortIndexed_def by (induction xs) (simp_all add: set_foldr_insertIndexed)











lemma fetchedRef_Some [simp]: "fetchedRef l = Some r \<longleftrightarrow> l = EntryFetched r"
  by (cases l) auto

lemma Some_fetchedRef [simp]: "Some r = fetchedRef l \<longleftrightarrow> l = EntryFetched r"
  by (cases l) auto









lemma reservations_done [simp]: "reservations (b\<lparr>bt_done := d\<rparr>) = reservations b"
  by (simp add: reservations_def)









lemma deref_nextEntryModuleIndex [simp]:
  "deref (st\<lparr>nextEntryModuleIndex := n\<rparr>) r = deref st r"
  by (simp add: deref_def)





lemma step_effect:
  "mutates (ld c) (ld (step U ev c)) \<or> (\<exists>f. fetches (ld c) f (ld (step U ev c)))"
proof (cases ev)
  case (LoadEntryModule u isEntry importer res)
  obtain x st' where h: "loadEntryModule (ld c) u isEntry importer res = (x, st')"
    by (cases "loadEntryModule (ld c) u isEntry importer res")
  from fetches_loadEntryModule[OF h]
  show ?thesis using LoadEntryModule h by (auto simp: step_def started_def)
next
  case (AddModuleSource r importer loaded fl transformed)
  show ?thesis
  proof (cases "r \<in> set (suspendedLoads c)")
    case False
    then show ?thesis using AddModuleSource by (simp add: step_def)
  next
    case True
    show ?thesis
    proof (cases "deref (ld c) r")
      case None
      then show ?thesis using AddModuleSource True by (simp add: step_def)
    next
      case (Some m)
      from addModuleSource_frame[OF Some refl, of U importer loaded fl transformed]
      show ?thesis using AddModuleSource True Some by (simp add: step_def)
    qed
  qed
next
  case (FetchSource r source)
  show ?thesis
  proof (cases "fetchAllDependencies_source (ld c) r source")
    case None
    then show ?thesis using FetchSource by (simp add: step_def)
  next
    case (Some p)
    obtain x st' where p: "p = (x, st')" by (cases p)
    from fetches_source[OF Some[unfolded p]]
    show ?thesis using FetchSource Some p by (auto simp: step_def started_def)
  qed
next
  case (FetchSourceResolved r source answer)
  obtain x st' where h: "fetchAllDependencies_source_resolved (ld c) U r source answer = (x, st')"
    by (cases "fetchAllDependencies_source_resolved (ld c) U r source answer")
  from fetches_source_resolved[OF h]
  show ?thesis using FetchSourceResolved h by (auto simp: step_def started_def)
next
  case (ResolveDynamicImport r specifier resolution)
  show ?thesis
  proof (cases "deref (ld c) r")
    case None
    then show ?thesis using ResolveDynamicImport by (simp add: step_def)
  next
    case (Some m)
    show ?thesis
    proof (cases "resolveDynamicImport (ld c) U r specifier (m_id m) resolution")
      case None
      then show ?thesis using ResolveDynamicImport Some by (simp add: step_def)
    next
      case (Some p)
      obtain x st' where p: "p = (x, st')" by (cases p)
      have "mutates (ld c) st'"
        using quiet_resolveDynamicImport[OF Some[unfolded p]] by (rule quiet_mutates)
      then show ?thesis using ResolveDynamicImport Some p \<open>deref (ld c) r = Some m\<close>
        by (simp add: step_def)
    qed
  qed
next
  case (ResolveDynamicImportResolved r s answer)
  then show ?thesis using quiet_mutates[OF quiet_memoizeResolvedId] by (simp add: step_def)
next
  case (FetchDynamic r resolvedId)
  obtain x st' where h: "fetchAllDependencies_dynamic (ld c) U r resolvedId = (x, st')"
    by (cases "fetchAllDependencies_dynamic (ld c) U r resolvedId")
  from fetches_dynamic[OF h]
  show ?thesis using FetchDynamic h by (auto simp: step_def started_def)
next
  case (Link r)
  then show ?thesis using quiet_mutates[OF quiet_fetchModule_link] by (simp add: step_def)
next
  case (AddEntryModules us b)
  have "mutates (ld c) (snd (addEntryModules_reserve (ld c) us))"
    using calm_addEntryModules_reserve by (simp add: calm_def)
  then show ?thesis using AddEntryModules by (auto simp: step_def split: prod.splits)
next
  case (LoadEntry n k res)
  show ?thesis
  proof (cases "n < length (batches c) \<and> k < length (bt_entries (batches c ! n)) \<and>
              k < length (bt_loads (batches c ! n)) \<and>
              bt_loads (batches c ! n) ! k = EntryResolving")
    case False
    then show ?thesis using LoadEntry by (auto simp: step_def)
  next
    case True
    let ?u = "bt_entries (batches c ! n) ! k"
    obtain x st' where h: "loadEntryModule (ld c) (u_id ?u) True (u_importer ?u) res = (x, st')"
      by (cases "loadEntryModule (ld c) (u_id ?u) True (u_importer ?u) res")
    from fetches_loadEntryModule[OF h]
    show ?thesis using LoadEntry True h by (auto simp: step_def started_def)
  qed
next
  case (AddEntryModulesThen n)
  have "mutates (ld c) (snd (addEntryModules_then (ld c) f us b rs))" for f us b rs
    using calm_addEntryModules_then by (simp add: calm_def)
  then show ?thesis using AddEntryModulesThen by (auto simp: step_def split: option.splits)
next
  case (AddManualChunksThen un rs)
  then show ?thesis using quiet_mutates[OF quiet_addManualChunks_then] by (simp add: step_def)
next
  case (AssignManualChunks g)
  then show ?thesis using quiet_mutates[OF quiet_assignManualChunks] by (simp add: step_def)
qed

lemma registered_step: "registered (ld c) \<Longrightarrow> registered (ld (step U ev c))"
  using step_effect[of c U ev] registered_mutates registered_fetches by blast

lemma registered_run: "registered (ld c) \<Longrightarrow> registered (ld (run U evs c))"
  by (induction evs arbitrary: c) (simp_all add: registered_step)







lemma batches_started [simp]: "batches (started f st c) = batches c"
  by (simp add: started_def)

lemma loadedEntryModules_done [simp]:
  "loadedEntryModules (b\<lparr>bt_done := d\<rparr>) = loadedEntryModules b"
  by (simp add: loadedEntryModules_def)














end
